theory Spec2Isabelle
  imports Main
begin

section \<open>Strings of the host language\<close>

text \<open>
  A string is a list of code units. The model covers the code units \<open>0x00\<close> to \<open>0xFF\<close>,
  one \<^typ>\<open>char\<close> each; on that range the white space of \<^verbatim>\<open>String.prototype.trim\<close> and
  of the regular expression class \<^verbatim>\<open>\s\<close> is the same set: TAB, LF, VT, FF, CR, SP, NBSP.
\<close>

definition LF :: char where
  "LF = CHR 0x0A"

definition CR :: char where
  "CR = CHR 0x0D"

definition isWhiteSpace :: "char \<Rightarrow> bool" where
  "isWhiteSpace c \<longleftrightarrow>
     c \<in> set [CHR 0x09, CHR 0x0A, CHR 0x0B, CHR 0x0C, CHR 0x0D, CHR 0x20, CHR 0xA0]"

text \<open>\<^verbatim>\<open>s.trim()\<close>: white space removed at both ends.\<close>

definition trim :: "string \<Rightarrow> string" where
  "trim s = rev (dropWhile isWhiteSpace (rev (dropWhile isWhiteSpace s)))"

text \<open>
  \<^verbatim>\<open>s.toLowerCase()\<close> on the modelled range: \<open>A\<close> to \<open>Z\<close> and the capital letters
  \<open>0xC0\<close> to \<open>0xDE\<close> (without the multiplication sign \<open>0xD7\<close>) move up by \<open>0x20\<close>, which
  sets bit 5 of the code unit; every other code unit stays.
\<close>

definition isUpper :: "char \<Rightarrow> bool" where
  "isUpper c \<longleftrightarrow>
     (let n = (of_char c :: nat)
      in (65 \<le> n \<and> n \<le> 90) \<or> (192 \<le> n \<and> n \<le> 222 \<and> n \<noteq> 215))"

definition lowerChar :: "char \<Rightarrow> char" where
  "lowerChar c =
     (if isUpper c
      then (case c of Char b0 b1 b2 b3 b4 b5 b6 b7 \<Rightarrow> Char b0 b1 b2 b3 b4 True b6 b7)
      else c)"

definition toLowerCase :: "string \<Rightarrow> string" where
  "toLowerCase s = map lowerChar s"

text \<open>\<^verbatim>\<open>xs.join(sep)\<close> on an array of strings.\<close>

fun jsJoin :: "string \<Rightarrow> string list \<Rightarrow> string" where
  "jsJoin sep [] = []"
| "jsJoin sep [x] = x"
| "jsJoin sep (x # y # ys) = x @ sep @ jsJoin sep (y # ys)"

text \<open>The first piece of a split result grows by one code unit.\<close>

fun pushFront :: "char \<Rightarrow> string list \<Rightarrow> string list" where
  "pushFront c [] = [[c]]"
| "pushFront c (l # ls) = (c # l) # ls"

text \<open>
  \<^verbatim>\<open>s.split(/\r?\n/)\<close>: the string is cut at every LF, and a CR right before that LF
  belongs to the separator. The empty string gives one empty piece.
\<close>

fun splitNewlines :: "string \<Rightarrow> string list" where
  "splitNewlines [] = [[]]"
| "splitNewlines [c] = (if c = LF then [[], []] else [[c]])"
| "splitNewlines (c # d # cs) =
     (if c = LF then [] # splitNewlines (d # cs)
      else if c = CR \<and> d = LF then [] # splitNewlines cs
      else pushFront c (splitNewlines (d # cs)))"

text \<open>
  \<^verbatim>\<open>s.split(/[,\s]+/)\<close>: the string is cut at every maximal run of commas and white
  space; a run at the very start or end leaves an empty piece there.
\<close>

definition isSeparator :: "char \<Rightarrow> bool" where
  "isSeparator c \<longleftrightarrow> c = CHR '','' \<or> isWhiteSpace c"

function splitSeparators :: "string \<Rightarrow> string list" where
  "splitSeparators [] = [[]]"
| "splitSeparators (c # cs) =
     (if isSeparator c then [] # splitSeparators (dropWhile isSeparator cs)
      else pushFront c (splitSeparators cs))"
  by pat_completeness auto
termination
  by (relation "measure length") (auto simp: length_dropWhile_le less_Suc_eq_le)

section \<open>Snippets\<close>

text \<open>
  \<^verbatim>\<open>RawSnippet\<close> as declared, with one addition. The entries of a file come from
  \<^verbatim>\<open>JSON.parse(text) as Record<string, RawSnippet>\<close>, an unchecked cast, and
  \<^verbatim>\<open>normalizeSnippet\<close> calls \<^verbatim>\<open>raw.body.split\<close> whenever the body is not an array:
  \<open>BodyOther\<close> stands for a body that is absent or is any JSON value other than a string
  and an array, on which that call raises a \<^verbatim>\<open>TypeError\<close>.
\<close>

datatype prefix_field = PrefixStr string | PrefixArr "string list"

datatype body_field = BodyStr string | BodyArr "string list" | BodyOther

record RawSnippet =
  prefix :: prefix_field
  body :: body_field
  description :: "string option"
  scope :: "string option"

record TeamSnippet =
  name :: string
  prefixes :: "string list"
  bodyLines :: "string list"
  description_t :: "string option"
  languages :: "string list"

datatype js_error = TypeError | SyntaxError | ReadError | ReaddirError

definition normalizeSnippet :: "string \<Rightarrow> RawSnippet \<Rightarrow> js_error + TeamSnippet" where
  "normalizeSnippet nm raw =
     (let prefixes' = (case prefix raw of PrefixArr ps \<Rightarrow> ps | PrefixStr p \<Rightarrow> [p])
      in case (case body raw of
                 BodyArr ls \<Rightarrow> Inr ls
               | BodyStr s \<Rightarrow> Inr (splitNewlines s)
               | BodyOther \<Rightarrow> Inl TypeError) of
           Inl e \<Rightarrow> Inl e
         | Inr bodyLines' \<Rightarrow>
             let languages' =
               (case scope raw of
                  None \<Rightarrow> [''*'']
                | Some s \<Rightarrow>
                    if s \<noteq> [] \<and> trim s \<noteq> []
                    then filter (\<lambda>t. t \<noteq> []) (map trim (splitSeparators s))
                    else [''*''])
             in Inr \<lparr>name = nm, prefixes = prefixes', bodyLines = bodyLines',
                     description_t = description raw, languages = languages'\<rparr>)"

section \<open>Maps in insertion order\<close>

text \<open>
  A \<^verbatim>\<open>Map\<close> iterates in the order in which its keys were first set, so it is a list of
  key and value pairs with \<^verbatim>\<open>has\<close>, \<^verbatim>\<open>get\<close> and \<^verbatim>\<open>set\<close>; setting a key that is
  there keeps its place.
\<close>

type_synonym ('k, 'v) jsmap = "('k \<times> 'v) list"

definition mapHas :: "'k \<Rightarrow> ('k, 'v) jsmap \<Rightarrow> bool" where
  "mapHas k m \<longleftrightarrow> k \<in> set (map fst m)"

definition mapGet :: "'k \<Rightarrow> ('k, 'v) jsmap \<Rightarrow> 'v option" where
  "mapGet k m = map_of m k"

fun mapSet :: "'k \<Rightarrow> 'v \<Rightarrow> ('k, 'v) jsmap \<Rightarrow> ('k, 'v) jsmap" where
  "mapSet k v [] = [(k, v)]"
| "mapSet k v ((k', v') # m) = (if k' = k then (k, v) # m else (k', v') # mapSet k v m)"

definition mapKeys :: "('k, 'v) jsmap \<Rightarrow> 'k list" where
  "mapKeys m = map fst m"

definition mapValues :: "('k, 'v) jsmap \<Rightarrow> 'v list" where
  "mapValues m = map snd m"

text \<open>
  The idiom of both loops that fill a bucket table:
  \<^verbatim>\<open>if (!map.has(key)) map.set(key, []); map.get(key)!.push(...xs)\<close>.
\<close>

definition bucketAppend :: "'k \<Rightarrow> 'a list \<Rightarrow> ('k, 'a list) jsmap \<Rightarrow> ('k, 'a list) jsmap" where
  "bucketAppend key xs m =
     (let m1 = (if \<not> mapHas key m then mapSet key [] m else m)
      in case mapGet key m1 of
           Some arr \<Rightarrow> mapSet key (arr @ xs) m1
         | None \<Rightarrow> m1)"

type_synonym snippet_table = "(string, TeamSnippet list) jsmap"

definition countTotalSnippets :: "snippet_table \<Rightarrow> nat" where
  "countTotalSnippets m = fold (\<lambda>arr count. count + length arr) (mapValues m) 0"

section \<open>The file system and the loader\<close>

text \<open>
  What the loader sees of one file: \<open>Blank\<close> when the text is empty or white space only,
  \<open>Fails e\<close> when reading or parsing raises \<open>e\<close> (\<^verbatim>\<open>readFileSync\<close>, \<^verbatim>\<open>JSON.parse\<close>, or
  \<^verbatim>\<open>Object.entries\<close> on \<^verbatim>\<open>null\<close>), and otherwise \<open>Parsed es\<close>, where \<open>es\<close> is
  \<^verbatim>\<open>Object.entries(JSON.parse(text))\<close>. A directory lists its entries in the order of
  \<^verbatim>\<open>readdirSync\<close>.
\<close>

datatype file_content = Blank | Fails js_error | Parsed "(string \<times> RawSnippet) list"

datatype dirent = FileEnt string file_content | DirEnt string "dirent list"

datatype fsnode = IsFile | IsDir "dirent list"

datatype message =
    FailedToLoad string js_error
  | NoRepositories
  | Loaded nat nat nat

text \<open>
  \<^verbatim>\<open>walk\<close> returns the paths of all files below a directory; here each path comes with
  what reading that file will give. \<open>join\<close> is \<^verbatim>\<open>path.join\<close> of the host.
\<close>

fun walk :: "(string \<Rightarrow> string \<Rightarrow> string) \<Rightarrow> string \<Rightarrow> dirent list \<Rightarrow> (string \<times> file_content) list" where
  "walk join dir [] = []"
| "walk join dir (FileEnt nm c # es) = (join dir nm, c) # walk join dir es"
| "walk join dir (DirEnt nm sub # es) = walk join (join dir nm) sub @ walk join dir es"

definition endsWith :: "string \<Rightarrow> string \<Rightarrow> bool" where
  "endsWith s suffix \<longleftrightarrow>
     length suffix \<le> length s \<and> drop (length s - length suffix) s = suffix"

definition eligible :: "bool \<Rightarrow> string \<Rightarrow> bool" where
  "eligible includeJson f \<longleftrightarrow>
     (if endsWith f ''.code-snippets'' then True
      else if includeJson \<and> endsWith f ''.json'' then True
      else False)"

text \<open>The loop over \<^verbatim>\<open>snippet.languages\<close>.\<close>

definition fileSnippet :: "TeamSnippet \<Rightarrow> snippet_table \<Rightarrow> snippet_table" where
  "fileSnippet snippet m =
     fold (\<lambda>lang. bucketAppend (toLowerCase lang) [snippet]) (languages snippet) m"

text \<open>
  The loop over the entries of one file runs inside the \<^verbatim>\<open>try\<close>: when
  \<^verbatim>\<open>normalizeSnippet\<close> raises, the loop ends there, with the table as it is by then.
\<close>

fun loadEntries :: "(string \<times> RawSnippet) list \<Rightarrow> snippet_table \<Rightarrow> snippet_table \<times> js_error option" where
  "loadEntries [] m = (m, None)"
| "loadEntries ((nm, raw) # es) m =
     (case normalizeSnippet nm raw of
        Inl e \<Rightarrow> (m, Some e)
      | Inr snippet \<Rightarrow> loadEntries es (fileSnippet snippet m))"

text \<open>The loop over the files; the second component collects the warnings shown.\<close>

fun loadFiles :: "(string \<times> file_content) list \<Rightarrow> snippet_table \<times> message list \<Rightarrow> snippet_table \<times> message list" where
  "loadFiles [] st = st"
| "loadFiles ((file, Blank) # fs) (m, ws) = loadFiles fs (m, ws)"
| "loadFiles ((file, Fails e) # fs) (m, ws) = loadFiles fs (m, ws @ [FailedToLoad file e])"
| "loadFiles ((file, Parsed es) # fs) (m, ws) =
     (case loadEntries es m of
        (m', None) \<Rightarrow> loadFiles fs (m', ws)
      | (m', Some e) \<Rightarrow> loadFiles fs (m', ws @ [FailedToLoad file e]))"

text \<open>
  \<^verbatim>\<open>collectSnippetsFromFolder\<close>: \<^verbatim>\<open>readdirSync\<close> in \<^verbatim>\<open>walk\<close> is outside the \<^verbatim>\<open>try\<close>, and
  it raises when the folder is missing or is not a directory.
\<close>

definition collectSnippetsFromFolder ::
  "(string \<Rightarrow> string \<Rightarrow> string) \<Rightarrow> (string \<Rightarrow> fsnode option) \<Rightarrow> string \<Rightarrow> bool
     \<Rightarrow> js_error + snippet_table \<times> message list" where
  "collectSnippetsFromFolder join disk snippetDir includeJson =
     (case disk snippetDir of
        Some (IsDir entries) \<Rightarrow>
          Inr (loadFiles (filter (\<lambda>(f, c). eligible includeJson f) (walk join snippetDir entries))
                 ([], []))
      | _ \<Rightarrow> Inl ReaddirError)"

section \<open>Repository configurations\<close>

text \<open>
  The settings are read without a check of their types. A setting, or a field of a list
  entry, is absent, \<^verbatim>\<open>null\<close>, a boolean or a string; \<open>orElse\<close> is \<^verbatim>\<open>||\<close> and \<open>toString\<close>
  is \<^verbatim>\<open>String(...)\<close> on these values.
\<close>

datatype cfgval = CUndefined | CNull | CBool bool | CStr string

fun truthy :: "cfgval \<Rightarrow> bool" where
  "truthy CUndefined = False"
| "truthy CNull = False"
| "truthy (CBool b) = b"
| "truthy (CStr s) = (s \<noteq> [])"

definition orElse :: "cfgval \<Rightarrow> cfgval \<Rightarrow> cfgval" where
  "orElse a b = (if truthy a then a else b)"

fun toString :: "cfgval \<Rightarrow> string" where
  "toString CUndefined = ''undefined''"
| "toString CNull = ''null''"
| "toString (CBool b) = (if b then ''true'' else ''false'')"
| "toString (CStr s) = s"

record RepoEntry =
  r_name :: cfgval
  r_localRepoPath :: cfgval
  r_branch :: cfgval
  r_snippetsPath :: cfgval
  r_includeJsonFiles :: cfgval
  r_enableGitPull :: cfgval

text \<open>
  The value of \<^verbatim>\<open>hexSnippets.repositories\<close>, read as \<^verbatim>\<open>any[]\<close>: an array, or one of the
  values above. An entry of the array is \<^verbatim>\<open>null\<close> (\<open>None\<close>), on which reading a field
  raises, or it is read through its fields; a boolean or a string as entry reads as an
  object without these fields.
\<close>

datatype repos_setting = ReposArray "RepoEntry option list" | ReposOther cfgval

text \<open>
  The settings read by \<^verbatim>\<open>cfg.get\<close>: the list, the path of the single repository mode,
  on which \<^verbatim>\<open>trim\<close> is called, and the other flat settings with the types of their
  \<^verbatim>\<open>get<string>\<close> and \<^verbatim>\<open>get<boolean>\<close>.
\<close>

record Config =
  repositories :: repos_setting
  cfg_localRepoPath :: cfgval
  cfg_branch :: "string option"
  cfg_snippetsPath :: "string option"
  cfg_includeJsonFiles :: "bool option"
  cfg_enableGitPull :: "bool option"

text \<open>
  \<^verbatim>\<open>RepoConfig\<close>; its fields \<^verbatim>\<open>id\<close> and \<^verbatim>\<open>name\<close> are \<open>repoId\<close> and \<open>repoName\<close> here.
\<close>

record RepoConfig =
  repoId :: string
  repoName :: string
  localRepoPath :: string
  branch :: string
  snippetsPath :: string
  includeJsonFiles :: bool
  enableGitPull :: bool

text \<open>A number in a template string: its decimal digits.\<close>

definition digitChar :: "nat \<Rightarrow> char" where
  "digitChar d = char_of (48 + d)"

function showNat :: "nat \<Rightarrow> string" where
  "showNat n = (if n < 10 then [digitChar n] else showNat (n div 10) @ [digitChar (n mod 10)])"
  by pat_completeness auto
termination
  by (relation "measure id") auto

declare showNat.simps [simp del]

text \<open>\<^verbatim>\<open>typeof v === "boolean" ? v : true\<close>.\<close>

definition booleanOrTrue :: "cfgval \<Rightarrow> bool" where
  "booleanOrTrue v = (case v of CBool b \<Rightarrow> b | _ \<Rightarrow> True)"

text \<open>
  The body of \<^verbatim>\<open>repos.forEach((r, index) => ...)\<close>, which pushes to \<^verbatim>\<open>result\<close>. On a
  \<^verbatim>\<open>null\<close> entry \<^verbatim>\<open>r.localRepoPath\<close> raises a \<^verbatim>\<open>TypeError\<close>, which leaves \<^verbatim>\<open>forEach\<close> and
  \<^verbatim>\<open>getRepoConfigs\<close>.
\<close>

fun forEachRepo ::
  "RepoEntry option list \<Rightarrow> nat \<Rightarrow> RepoConfig list \<Rightarrow> js_error + RepoConfig list" where
  "forEachRepo [] index result = Inr result"
| "forEachRepo (None # rs) index result = Inl TypeError"
| "forEachRepo (Some r # rs) index result =
     (let localRepoPath' = trim (toString (orElse (r_localRepoPath r) (CStr [])))
      in if localRepoPath' = [] then forEachRepo rs (Suc index) result
         else
           let trimmedName = trim (toString (orElse (r_name r) (CStr [])));
               name' = (if trimmedName \<noteq> [] then trimmedName
                        else ''Repo '' @ showNat (index + 1) @ '' ('' @ localRepoPath' @ '')'')
           in forEachRepo rs (Suc index)
                (result @
                 [\<lparr>repoId = ''repo-'' @ showNat index,
                   repoName = name',
                   localRepoPath = localRepoPath',
                   branch = toString (orElse (r_branch r) (CStr ''main'')),
                   snippetsPath = toString (orElse (r_snippetsPath r) (CStr ''snippets'')),
                   includeJsonFiles = booleanOrTrue (r_includeJsonFiles r),
                   enableGitPull = booleanOrTrue (r_enableGitPull r)\<rparr>]))"

definition stringOr :: "string option \<Rightarrow> string \<Rightarrow> string" where
  "stringOr v d = (case v of Some s \<Rightarrow> if s \<noteq> [] then s else d | None \<Rightarrow> d)"

definition boolOr :: "bool option \<Rightarrow> bool \<Rightarrow> bool" where
  "boolOr v d = (case v of Some b \<Rightarrow> b | None \<Rightarrow> d)"

text \<open>
  \<^verbatim>\<open>repos.length > 0\<close>: the length of an array or of a string; on a boolean the length is
  \<^verbatim>\<open>undefined\<close> and the comparison is false.
\<close>

definition lengthPositive :: "repos_setting \<Rightarrow> bool" where
  "lengthPositive repos \<longleftrightarrow>
     (case repos of
        ReposArray es \<Rightarrow> length es > 0
      | ReposOther v \<Rightarrow> (case v of CStr s \<Rightarrow> length s > 0 | _ \<Rightarrow> False))"

text \<open>
  \<^verbatim>\<open>getRepoConfigs\<close>. A value that is not an array has no \<^verbatim>\<open>forEach\<close>, and a path of the
  single repository mode that is not a string has no \<^verbatim>\<open>trim\<close>: both calls raise a
  \<^verbatim>\<open>TypeError\<close>.
\<close>

definition getRepoConfigs :: "Config \<Rightarrow> js_error + RepoConfig list" where
  "getRepoConfigs cfg =
     (let repos = (case repositories cfg of
                     ReposArray es \<Rightarrow> ReposArray es
                   | ReposOther v \<Rightarrow> if truthy v then ReposOther v else ReposArray [])
      in if lengthPositive repos
         then (case repos of
                 ReposArray es \<Rightarrow> forEachRepo es 0 []
               | ReposOther v \<Rightarrow> Inl TypeError)
         else
           (case orElse (cfg_localRepoPath cfg) (CStr []) of
              CStr p \<Rightarrow>
                let fallbackPath = trim p
                in if fallbackPath = [] then Inr []
                   else Inr [\<lparr>repoId = ''fallback'',
                              repoName = ''Default Repo'',
                              localRepoPath = fallbackPath,
                              branch = stringOr (cfg_branch cfg) ''main'',
                              snippetsPath = stringOr (cfg_snippetsPath cfg) ''snippets'',
                              includeJsonFiles = boolOr (cfg_includeJsonFiles cfg) True,
                              enableGitPull = boolOr (cfg_enableGitPull cfg) True\<rparr>]
            | _ \<Rightarrow> Inl TypeError))"

section \<open>Completion providers\<close>

datatype selector = Language string | FileScheme

record CompletionItem =
  label :: string
  insertText :: string
  filterText :: string
  sortText :: string
  detail :: string
  documentation :: "string option"

text \<open>
  A registered provider: its document selector, the snippets it offers, the items that
  \<^verbatim>\<open>provideCompletionItems\<close> builds from them, and its trigger characters.
\<close>

record provider =
  selector :: selector
  offered :: "TeamSnippet list"
  items :: "CompletionItem list"
  triggerChars :: "string list"

text \<open>\<^verbatim>\<open>Array.from(new Set(xs))\<close>: the first occurrence of each element, in order.\<close>

definition arrayFromSet :: "'a list \<Rightarrow> 'a list" where
  "arrayFromSet xs = fold (\<lambda>x seen. if x \<in> set seen then seen else seen @ [x]) xs []"

definition provideCompletionItems :: "string \<Rightarrow> TeamSnippet list \<Rightarrow> CompletionItem list" where
  "provideCompletionItems detail' all =
     concat (map (\<lambda>snip.
       map (\<lambda>prefix'.
         \<lparr>label = (if name snip \<noteq> [] then name snip else prefix'),
           insertText = jsJoin [LF] (bodyLines snip),
           filterText = prefix',
           sortText = ''zzz_team_'' @ prefix',
           detail = detail',
           documentation =
             (case description_t snip of
                Some d \<Rightarrow> if d \<noteq> [] then Some d else None
              | None \<Rightarrow> None)\<rparr>)
         (prefixes snip)) all)"

definition triggerCharsOf :: "TeamSnippet list \<Rightarrow> string list" where
  "triggerCharsOf snips =
     arrayFromSet
       (filter (\<lambda>s. s \<noteq> [])
          (map (\<lambda>p. if length p > 0 then [last p] else [])
             (concat (map prefixes snips))))"

definition registerCompletionProviders :: "snippet_table \<Rightarrow> provider list" where
  "registerCompletionProviders m =
     (let languages' = arrayFromSet (mapKeys m);
          globalSnips = (case mapGet ''*'' m of Some g \<Rightarrow> g | None \<Rightarrow> []);
          scoped =
            concat (map (\<lambda>lang.
              if lang = ''*'' then []
              else
                let langSnips = (case mapGet lang m of Some l \<Rightarrow> l | None \<Rightarrow> [])
                in [\<lparr>selector = Language lang,
                      offered = globalSnips @ langSnips,
                      items = provideCompletionItems (''Team Snippet ('' @ lang @ '')'')
                                (globalSnips @ langSnips),
                      triggerChars = triggerCharsOf (globalSnips @ langSnips)\<rparr>])
              languages');
          globalOnly =
            (if length globalSnips > 0 \<and> length languages' = 1 \<and> ''*'' \<in> set languages'
             then [\<lparr>selector = FileScheme,
                     offered = globalSnips,
                     items = provideCompletionItems ''Team Snippet (global)'' globalSnips,
                     triggerChars = triggerCharsOf globalSnips\<rparr>]
             else [])
      in scoped @ globalOnly)"

section \<open>The synchronisation cycle\<close>

text \<open>
  The world outside the extension: what is on disk under each path, and the time. The
  host gives the functions of \<^verbatim>\<open>path\<close>, the first workspace folder, the working
  directory and \<^verbatim>\<open>execFile\<close>, which answers with the error message (if any), the
  standard output and the standard error, and may change the world.
\<close>

record world =
  disk :: "string \<Rightarrow> fsnode option"
  clock :: nat

record host =
  isAbsolute :: "string \<Rightarrow> bool"
  pathJoin :: "string \<Rightarrow> string \<Rightarrow> string"
  workspaceFolder :: "string option"
  cwd :: string
  execFile :: "string \<Rightarrow> string list \<Rightarrow> world \<Rightarrow> (string option \<times> string \<times> string) \<times> world"

definition existsSync :: "world \<Rightarrow> string \<Rightarrow> bool" where
  "existsSync w p \<longleftrightarrow> disk w p \<noteq> None"

text \<open>\<^verbatim>\<open>RepoStatus\<close>; its fields \<^verbatim>\<open>id\<close> and \<^verbatim>\<open>name\<close> are \<open>statusId\<close> and \<open>statusName\<close>.\<close>

record RepoStatus =
  statusId :: string
  statusName :: string
  lastSync :: "nat option"
  lastError :: "string option"
  snippetCount :: nat

text \<open>
  The variables of the module (\<open>snippetMap\<close>, \<open>repoStatuses\<close>, \<open>providerDisposables\<close>,
  \<open>repoWatchers\<close>, the latter by the folder watched) together with the world and with
  what a cycle does to the outside: the pulls it runs, by path and branch, and the
  messages it shows.
\<close>

record state =
  world :: world
  snippetMap :: snippet_table
  repoStatuses :: "(string, RepoStatus) jsmap"
  providerDisposables :: "provider list"
  repoWatchers :: "string list"
  pulls :: "(string \<times> string) list"
  shown :: "message list"

record options =
  showNotifications :: bool
  allowGitPull :: bool

text \<open>The promise of \<^verbatim>\<open>runGitPull\<close>: \<open>None\<close> when it resolves, the message when it rejects.\<close>

definition runGitPull :: "host \<Rightarrow> string \<Rightarrow> string \<Rightarrow> world \<Rightarrow> string option \<times> world" where
  "runGitPull h repoPath branch' w =
     (case execFile h ''git'' [''-C'', repoPath, ''pull'', ''--ff-only'', ''origin'', branch'] w of
        ((Some msg, stdout, stderr), w') \<Rightarrow>
          (Some (msg @ '' | stdout: '' @ stdout @ '' | stderr: '' @ stderr), w')
      | ((None, stdout, stderr), w') \<Rightarrow> (None, w'))"

definition resolveRepoPath :: "host \<Rightarrow> string \<Rightarrow> string" where
  "resolveRepoPath h configPath =
     (if isAbsolute h configPath then configPath
      else case workspaceFolder h of
             Some folder \<Rightarrow> pathJoin h folder configPath
           | None \<Rightarrow> pathJoin h (cwd h) configPath)"

text \<open>The merge of one repository's table into \<^verbatim>\<open>aggregateMap\<close>.\<close>

definition mergeInto :: "snippet_table \<Rightarrow> snippet_table \<Rightarrow> snippet_table" where
  "mergeInto repoMap aggregateMap =
     fold (\<lambda>(lang, snips). bucketAppend lang snips) repoMap aggregateMap"

text \<open>
  One pass of the loop \<^verbatim>\<open>for (const repo of repos)\<close>, on the local \<^verbatim>\<open>aggregateMap\<close> and
  the state. An exception that leaves \<^verbatim>\<open>syncAllRepos\<close> is the result \<open>Inl\<close>.
\<close>

definition processRepo ::
  "host \<Rightarrow> bool \<Rightarrow> RepoConfig \<Rightarrow> snippet_table \<times> state \<Rightarrow> js_error + snippet_table \<times> state" where
  "processRepo h allowPull repo acc =
     (case acc of (aggregateMap, st) \<Rightarrow>
      let repoPath = resolveRepoPath h (localRepoPath repo);
          status = \<lparr>statusId = repoId repo, statusName = repoName repo, lastSync = None,
                     lastError = None, snippetCount = 0\<rparr>
      in if \<not> existsSync (world st) repoPath
            \<or> \<not> existsSync (world st) (pathJoin h repoPath ''.git'')
         then Inr (aggregateMap,
                   st\<lparr>repoStatuses :=
                        mapSet (repoId repo)
                          (status\<lparr>lastError := Some (''Not a git repo: '' @ repoPath)\<rparr>)
                          (repoStatuses st)\<rparr>)
         else
           let (status1, st1) =
                 (if allowPull \<and> enableGitPull repo
                  then (case runGitPull h repoPath (branch repo) (world st) of
                          (Some msg, w') \<Rightarrow>
                            let failed = status\<lparr>lastError := Some (''git pull failed: '' @ msg)\<rparr>
                            in (failed,
                                st\<lparr>world := w',
                                    pulls := pulls st @ [(repoPath, branch repo)],
                                    repoStatuses := mapSet (repoId repo) failed (repoStatuses st)\<rparr>)
                        | (None, w') \<Rightarrow>
                            (status,
                             st\<lparr>world := w', pulls := pulls st @ [(repoPath, branch repo)]\<rparr>))
                  else (status, st));
               snippetDir = pathJoin h repoPath (snippetsPath repo)
           in if \<not> existsSync (world st1) snippetDir
              then Inr (aggregateMap,
                        st1\<lparr>repoStatuses :=
                              mapSet (repoId repo)
                                (if lastError status1 = None
                                 then status1\<lparr>lastError :=
                                        Some (''Snippets folder not found: '' @ snippetDir)\<rparr>
                                 else status1)
                                (repoStatuses st1)\<rparr>)
              else
                (case collectSnippetsFromFolder (pathJoin h) (disk (world st1)) snippetDir
                        (includeJsonFiles repo) of
                   Inl e \<Rightarrow> Inl e
                 | Inr (repoMap, warnings) \<Rightarrow>
                     let status2 = status1\<lparr>snippetCount := countTotalSnippets repoMap\<rparr>;
                         status3 = (if lastError status2 = None
                                    then status2\<lparr>lastSync := Some (clock (world st1))\<rparr>
                                    else status2)
                     in Inr (mergeInto repoMap aggregateMap,
                             st1\<lparr>repoStatuses := mapSet (repoId repo) status3 (repoStatuses st1),
                                  repoWatchers := repoWatchers st1 @ [snippetDir],
                                  shown := shown st1 @ warnings\<rparr>)))"

fun syncLoop ::
  "host \<Rightarrow> bool \<Rightarrow> RepoConfig list \<Rightarrow> snippet_table \<times> state \<Rightarrow> js_error + snippet_table \<times> state" where
  "syncLoop h allowPull [] acc = Inr acc"
| "syncLoop h allowPull (repo # repos) acc =
     (case processRepo h allowPull repo acc of
        Inl e \<Rightarrow> Inl e
      | Inr acc' \<Rightarrow> syncLoop h allowPull repos acc')"

definition errorCount :: "(string, RepoStatus) jsmap \<Rightarrow> nat" where
  "errorCount statuses = length (filter (\<lambda>s. lastError s \<noteq> None) (mapValues statuses))"

text \<open>
  \<^verbatim>\<open>syncAllRepos\<close>, for the settings \<open>cfg\<close> that \<^verbatim>\<open>getConfiguration\<close> returns; an
  exception of \<^verbatim>\<open>getRepoConfigs\<close> leaves it before anything is changed. The log and the
  text of the status bar are left out.
\<close>

definition syncAllRepos :: "host \<Rightarrow> options \<Rightarrow> Config \<Rightarrow> state \<Rightarrow> js_error + state" where
  "syncAllRepos h opts cfg st =
     (case getRepoConfigs cfg of
        Inl e \<Rightarrow> Inl e
      | Inr repos \<Rightarrow>
          if length repos = 0
          then Inr (st\<lparr>shown := shown st @ (if showNotifications opts then [NoRepositories] else []),
                       snippetMap := [],
                       repoStatuses := [],
                       providerDisposables := [],
                       repoWatchers := []\<rparr>)
          else
            (case syncLoop h (allowGitPull opts) repos
                    ([], st\<lparr>repoStatuses := [], repoWatchers := []\<rparr>) of
               Inl e \<Rightarrow> Inl e
             | Inr (aggregateMap, st') \<Rightarrow>
                 Inr (st'\<lparr>snippetMap := aggregateMap,
                          providerDisposables := registerCompletionProviders aggregateMap,
                          shown := shown st' @
                            (if showNotifications opts
                             then [Loaded (countTotalSnippets aggregateMap) (length repos)
                                     (errorCount (repoStatuses st'))]
                             else [])\<rparr>)))"

section \<open>Notions used in the properties\<close>

text \<open>A text with every CR LF pair replaced by LF.\<close>

fun crlfToLf :: "string \<Rightarrow> string" where
  "crlfToLf [] = []"
| "crlfToLf [c] = [c]"
| "crlfToLf (c # d # cs) =
     (if c = CR \<and> d = LF then LF # crlfToLf cs else c # crlfToLf (d # cs))"

text \<open>
  The tokens of a scope: its maximal runs of code units that are neither a comma nor
  white space, from left to right.
\<close>

function tokens :: "string \<Rightarrow> string list" where
  "tokens s =
     (case dropWhile isSeparator s of
        [] \<Rightarrow> []
      | c # cs \<Rightarrow>
          (c # takeWhile (\<lambda>x. \<not> isSeparator x) cs)
            # tokens (dropWhile (\<lambda>x. \<not> isSeparator x) cs))"
  by pat_completeness auto
termination
proof (relation "measure length", goal_cases)
  case 1
  show ?case by simp
next
  case (2 s c cs)
  have "length (dropWhile (\<lambda>x. \<not> isSeparator x) cs) \<le> length cs"
    by (rule length_dropWhile_le)
  moreover have "length (c # cs) \<le> length s"
    using length_dropWhile_le[of isSeparator s] 2 by simp
  ultimately show ?case by simp
qed

declare tokens.simps [simp del]

text \<open>The bucket of a key in a table; a key that is not there has the empty bucket.\<close>

definition bucket :: "'k \<Rightarrow> ('k, 'a list) jsmap \<Rightarrow> 'a list" where
  "bucket k m = (case mapGet k m of Some arr \<Rightarrow> arr | None \<Rightarrow> [])"

text \<open>The resolved root path of a repository and the path of its snippets folder.\<close>

definition repoPathOf :: "host \<Rightarrow> RepoConfig \<Rightarrow> string" where
  "repoPathOf h repo = resolveRepoPath h (localRepoPath repo)"

definition snippetDirOf :: "host \<Rightarrow> RepoConfig \<Rightarrow> string" where
  "snippetDirOf h repo = pathJoin h (repoPathOf h repo) (snippetsPath repo)"

text \<open>
  The snippets that one file gives: the entries of a parsed file, normalised in order up
  to the first entry on which the normalisation raises; and the error of a file, if any.
\<close>

fun normalizedPrefix :: "(string \<times> RawSnippet) list \<Rightarrow> TeamSnippet list" where
  "normalizedPrefix [] = []"
| "normalizedPrefix ((nm, raw) # es) =
     (case normalizeSnippet nm raw of
        Inl e \<Rightarrow> []
      | Inr t \<Rightarrow> t # normalizedPrefix es)"

fun firstError :: "(string \<times> RawSnippet) list \<Rightarrow> js_error option" where
  "firstError [] = None"
| "firstError ((nm, raw) # es) =
     (case normalizeSnippet nm raw of
        Inl e \<Rightarrow> Some e
      | Inr t \<Rightarrow> firstError es)"

fun snippetsOfFile :: "file_content \<Rightarrow> TeamSnippet list" where
  "snippetsOfFile Blank = []"
| "snippetsOfFile (Fails e) = []"
| "snippetsOfFile (Parsed es) = normalizedPrefix es"

fun fileError :: "file_content \<Rightarrow> js_error option" where
  "fileError Blank = None"
| "fileError (Fails e) = Some e"
| "fileError (Parsed es) = firstError es"

definition snippetsOfFiles :: "(string \<times> file_content) list \<Rightarrow> TeamSnippet list" where
  "snippetsOfFiles fs = concat (map (\<lambda>(f, c). snippetsOfFile c) fs)"

definition warningsOf :: "(string \<times> file_content) list \<Rightarrow> message list" where
  "warningsOf fs =
     concat (map (\<lambda>(f, c). case fileError c of Some e \<Rightarrow> [FailedToLoad f e] | None \<Rightarrow> []) fs)"

text \<open>The eligible files of a snippets folder, in the order of the walk.\<close>

definition eligibleFiles ::
  "(string \<Rightarrow> string \<Rightarrow> string) \<Rightarrow> (string \<Rightarrow> fsnode option) \<Rightarrow> string \<Rightarrow> bool
     \<Rightarrow> (string \<times> file_content) list" where
  "eligibleFiles join d snippetDir includeJson =
     (case d snippetDir of
        Some (IsDir entries) \<Rightarrow>
          filter (\<lambda>(f, c). eligible includeJson f) (walk join snippetDir entries)
      | _ \<Rightarrow> [])"

text \<open>The sum of the counts that the statuses of a cycle report.\<close>

definition reportedCount :: "(string, RepoStatus) jsmap \<Rightarrow> nat" where
  "reportedCount statuses = sum_list (map snippetCount (mapValues statuses))"

text \<open>
  What the pull step of one repository leaves: the error it records, if the pull runs and
  is rejected, and the world after it.
\<close>

definition pullOutcome :: "host \<Rightarrow> bool \<Rightarrow> RepoConfig \<Rightarrow> world \<Rightarrow> string option \<times> world" where
  "pullOutcome h allowPull repo w =
     (if allowPull \<and> enableGitPull repo
      then (case runGitPull h (repoPathOf h repo) (branch repo) w of
              (None, w') \<Rightarrow> (None, w')
            | (Some msg, w') \<Rightarrow> (Some (''git pull failed: '' @ msg), w'))
      else (None, w))"

definition pullsOf :: "host \<Rightarrow> bool \<Rightarrow> RepoConfig \<Rightarrow> (string \<times> string) list" where
  "pullsOf h allowPull repo =
     (if allowPull \<and> enableGitPull repo then [(repoPathOf h repo, branch repo)] else [])"

text \<open>A repository passes the first check when its root and the \<^verbatim>\<open>.git\<close> below it exist.\<close>

definition isGitRepo :: "host \<Rightarrow> world \<Rightarrow> RepoConfig \<Rightarrow> bool" where
  "isGitRepo h w repo \<longleftrightarrow>
     existsSync w (repoPathOf h repo) \<and> existsSync w (pathJoin h (repoPathOf h repo) ''.git'')"

text \<open>The number that a string of decimal digits denotes.\<close>

definition readNat :: "string \<Rightarrow> nat" where
  "readNat s = foldl (\<lambda>acc c. 10 * acc + (of_char c - 48)) 0 s"

text \<open>
  What one pass of the loop does, as a function of the world alone: the world it leaves,
  the pulls it runs, the status it records for the repository and, when the snippets
  folder is loaded, the table and the warnings of the loader.
\<close>

type_synonym outcome =
  "world \<times> (string \<times> string) list \<times> RepoStatus \<times> (snippet_table \<times> message list) option"

definition repoOutcome :: "host \<Rightarrow> bool \<Rightarrow> RepoConfig \<Rightarrow> world \<Rightarrow> js_error + outcome" where
  "repoOutcome h allowPull repo w =
     (if \<not> isGitRepo h w repo
      then Inr (w, [],
                \<lparr>statusId = repoId repo, statusName = repoName repo, lastSync = None,
                  lastError = Some (''Not a git repo: '' @ repoPathOf h repo),
                  snippetCount = 0\<rparr>,
                None)
      else
        (case pullOutcome h allowPull repo w of
           (err, w1) \<Rightarrow>
             if \<not> existsSync w1 (snippetDirOf h repo)
             then Inr (w1, pullsOf h allowPull repo,
                       \<lparr>statusId = repoId repo, statusName = repoName repo, lastSync = None,
                         lastError =
                           (if err = None
                            then Some (''Snippets folder not found: '' @ snippetDirOf h repo)
                            else err),
                         snippetCount = 0\<rparr>,
                       None)
             else
               (case collectSnippetsFromFolder (pathJoin h) (disk w1) (snippetDirOf h repo)
                       (includeJsonFiles repo) of
                  Inl e \<Rightarrow> Inl e
                | Inr (repoMap, warnings) \<Rightarrow>
                    Inr (w1, pullsOf h allowPull repo,
                         \<lparr>statusId = repoId repo, statusName = repoName repo,
                           lastSync = (if err = None then Some (clock w1) else None),
                           lastError = err,
                           snippetCount = countTotalSnippets repoMap\<rparr>,
                         Some (repoMap, warnings)))))"

definition applyOutcome ::
  "host \<Rightarrow> RepoConfig \<Rightarrow> outcome \<Rightarrow> snippet_table \<times> state \<Rightarrow> snippet_table \<times> state" where
  "applyOutcome h repo out acc =
     (case (out, acc) of
        ((w', ps, status, loaded), (agg, st)) \<Rightarrow>
          ((case loaded of None \<Rightarrow> agg | Some (repoMap, warnings) \<Rightarrow> mergeInto repoMap agg),
           st\<lparr>world := w',
               pulls := pulls st @ ps,
               repoStatuses := mapSet (repoId repo) status (repoStatuses st),
               repoWatchers :=
                 repoWatchers st @ (case loaded of None \<Rightarrow> [] | Some l \<Rightarrow> [snippetDirOf h repo]),
               shown :=
                 shown st @ (case loaded of None \<Rightarrow> [] | Some (repoMap, warnings) \<Rightarrow> warnings)\<rparr>))"

text \<open>A state with the status of one repository left out.\<close>

definition withoutStatus :: "string \<Rightarrow> state \<Rightarrow> state" where
  "withoutStatus rid st = st\<lparr>repoStatuses := filter (\<lambda>(k, v). k \<noteq> rid) (repoStatuses st)\<rparr>"

text \<open>
  What the passes for a list of sources do one after the other, each in the world that the
  pass before it leaves, and the parts of what one pass does: the pulls it runs, the
  status it records, the table it loads (none when the folder is not loaded) and the
  warnings of the loader.
\<close>

fun runOutcomes :: "host \<Rightarrow> bool \<Rightarrow> RepoConfig list \<Rightarrow> world \<Rightarrow> js_error + outcome list" where
  "runOutcomes h allowPull [] w = Inr []"
| "runOutcomes h allowPull (repo # repos) w =
     (case repoOutcome h allowPull repo w of
        Inl e \<Rightarrow> Inl e
      | Inr out \<Rightarrow>
          (case runOutcomes h allowPull repos (fst out) of
             Inl e \<Rightarrow> Inl e
           | Inr outs \<Rightarrow> Inr (out # outs)))"

definition pullsIn :: "outcome \<Rightarrow> (string \<times> string) list" where
  "pullsIn out = (case out of (w', ps, status, loaded) \<Rightarrow> ps)"

definition statusOf :: "outcome \<Rightarrow> RepoStatus" where
  "statusOf out = (case out of (w', ps, status, loaded) \<Rightarrow> status)"

definition tableOf :: "outcome \<Rightarrow> snippet_table" where
  "tableOf out =
     (case out of (w', ps, status, loaded) \<Rightarrow>
        (case loaded of None \<Rightarrow> [] | Some (repoMap, warnings) \<Rightarrow> repoMap))"

definition warningsIn :: "outcome \<Rightarrow> message list" where
  "warningsIn out =
     (case out of (w', ps, status, loaded) \<Rightarrow>
        (case loaded of None \<Rightarrow> [] | Some (repoMap, warnings) \<Rightarrow> warnings))"

text \<open>
  The source registry in the words of its description. A text setting counts when it is a
  string that is not empty, and the default stands in when it is absent, \<^verbatim>\<open>null\<close>,
  \<^verbatim>\<open>false\<close> or empty (the boolean \<^verbatim>\<open>true\<close> reads as the text \<^verbatim>\<open>true\<close>); a list entry
  without a path that is not blank is dropped. The settings on which the code raises
  instead: a list with a \<^verbatim>\<open>null\<close> entry, a string in the place of the list, and, when
  the flat settings are used, the boolean \<^verbatim>\<open>true\<close> as their path.
\<close>

definition textOr :: "cfgval \<Rightarrow> string \<Rightarrow> string" where
  "textOr v d =
     (case v of
        CStr s \<Rightarrow> if s = [] then d else s
      | CBool b \<Rightarrow> if b then ''true'' else d
      | _ \<Rightarrow> d)"

definition resolveEntry :: "nat \<Rightarrow> RepoEntry \<Rightarrow> RepoConfig option" where
  "resolveEntry index r =
     (let path = trim (textOr (r_localRepoPath r) []);
          given = trim (textOr (r_name r) [])
      in if path = [] then None
         else Some
           \<lparr>repoId = ''repo-'' @ showNat index,
            repoName =
              (if given = [] then ''Repo '' @ showNat (index + 1) @ '' ('' @ path @ '')''
               else given),
            localRepoPath = path,
            branch = textOr (r_branch r) ''main'',
            snippetsPath = textOr (r_snippetsPath r) ''snippets'',
            includeJsonFiles = (case r_includeJsonFiles r of CBool b \<Rightarrow> b | _ \<Rightarrow> True),
            enableGitPull = (case r_enableGitPull r of CBool b \<Rightarrow> b | _ \<Rightarrow> True)\<rparr>)"

definition legacySource :: "Config \<Rightarrow> RepoConfig list" where
  "legacySource cfg =
     (let path = trim (textOr (cfg_localRepoPath cfg) [])
      in if path = [] then []
         else [\<lparr>repoId = ''fallback'',
                 repoName = ''Default Repo'',
                 localRepoPath = path,
                 branch = (case cfg_branch cfg of
                             Some b \<Rightarrow> if b = [] then ''main'' else b
                           | None \<Rightarrow> ''main''),
                 snippetsPath = (case cfg_snippetsPath cfg of
                                   Some p' \<Rightarrow> if p' = [] then ''snippets'' else p'
                                 | None \<Rightarrow> ''snippets''),
                 includeJsonFiles = (case cfg_includeJsonFiles cfg of Some b \<Rightarrow> b | None \<Rightarrow> True),
                 enableGitPull = (case cfg_enableGitPull cfg of Some b \<Rightarrow> b | None \<Rightarrow> True)\<rparr>])"

definition resolveSources :: "Config \<Rightarrow> RepoConfig list" where
  "resolveSources cfg =
     (case repositories cfg of
        ReposArray (e # es) \<Rightarrow>
          List.map_filter (\<lambda>(index, entry). Option.bind entry (resolveEntry index))
            (enumerate 0 (e # es))
      | _ \<Rightarrow> legacySource cfg)"

definition registryRaises :: "Config \<Rightarrow> bool" where
  "registryRaises cfg \<longleftrightarrow>
     (case repositories cfg of
        ReposArray (e # es) \<Rightarrow> None \<in> set (e # es)
      | ReposOther (CStr (c # s)) \<Rightarrow> True
      | _ \<Rightarrow> cfg_localRepoPath cfg = CBool True)"

text \<open>
  The providers in the words of the completion interface: for a language, the global
  bucket followed by the bucket of the language; for any file, the global bucket. The
  last characters of the prefixes of a list of snippets.
\<close>

definition scopedProvider :: "snippet_table \<Rightarrow> string \<Rightarrow> provider" where
  "scopedProvider m lang =
     \<lparr>selector = Language lang,
      offered = bucket ''*'' m @ bucket lang m,
      items = provideCompletionItems (''Team Snippet ('' @ lang @ '')'')
                (bucket ''*'' m @ bucket lang m),
      triggerChars = triggerCharsOf (bucket ''*'' m @ bucket lang m)\<rparr>"

definition catchAllProvider :: "snippet_table \<Rightarrow> provider" where
  "catchAllProvider m =
     \<lparr>selector = FileScheme,
      offered = bucket ''*'' m,
      items = provideCompletionItems ''Team Snippet (global)'' (bucket ''*'' m),
      triggerChars = triggerCharsOf (bucket ''*'' m)\<rparr>"

definition lastChars :: "TeamSnippet list \<Rightarrow> string set" where
  "lastChars snips =
     (\<lambda>p. [last p]) ` set (filter (\<lambda>p. p \<noteq> []) (concat (map prefixes snips)))"

text \<open>A table as the loader and the merge build it: a key once, no bucket empty.\<close>

definition wfTable :: "snippet_table \<Rightarrow> bool" where
  "wfTable m \<longleftrightarrow> distinct (mapKeys m) \<and> list_all (\<lambda>(k, b). b \<noteq> []) m"

section \<open>An example\<close>

text \<open>
  A host with POSIX paths on which every pull succeeds, and a disk with two configured
  roots: \<^verbatim>\<open>/a\<close> is a git repository whose snippets folder holds a snippet file, a file
  that does not parse, a sub-folder with a file whose second entry has no body, and a
  file that is not eligible; \<^verbatim>\<open>/b\<close> has no \<^verbatim>\<open>.git\<close>.
\<close>

definition exampleHost :: host where
  "exampleHost =
     \<lparr>isAbsolute = (\<lambda>p. take 1 p = ''/''),
      pathJoin = (\<lambda>a b. a @ ''/'' @ b),
      workspaceFolder = None,
      cwd = ''/home'',
      execFile = (\<lambda>cmd args w. ((None, [], []), w))\<rparr>"

definition exampleLog :: RawSnippet where
  "exampleLog =
     \<lparr>prefix = PrefixStr ''logv'', body = BodyArr [''console.log(x);''],
      description = None, scope = Some ''javascript''\<rparr>"

definition exampleTodo :: RawSnippet where
  "exampleTodo =
     \<lparr>prefix = PrefixArr [''todo'', ''fix''], body = BodyStr ''// TODO'',
      description = Some ''note'', scope = None\<rparr>"

definition exampleBad :: RawSnippet where
  "exampleBad =
     \<lparr>prefix = PrefixStr ''bad'', body = BodyOther, description = None, scope = None\<rparr>"

definition exampleFolder :: "dirent list" where
  "exampleFolder =
     [FileEnt ''demo.code-snippets'' (Parsed [(''Log'', exampleLog)]),
      FileEnt ''broken.json'' (Fails SyntaxError),
      DirEnt ''more''
        [FileEnt ''todo.code-snippets'' (Parsed [(''Todo'', exampleTodo), (''Bad'', exampleBad)])],
      FileEnt ''notes.txt'' Blank]"

definition exampleDisk :: "string \<Rightarrow> fsnode option" where
  "exampleDisk p =
     (if p = ''/a'' \<or> p = ''/a/.git'' \<or> p = ''/b'' then Some (IsDir [])
      else if p = ''/a/snippets'' then Some (IsDir exampleFolder)
      else None)"

definition exampleWorld :: world where
  "exampleWorld = \<lparr>disk = exampleDisk, clock = 7\<rparr>"

definition exampleState :: state where
  "exampleState =
     \<lparr>world = exampleWorld, snippetMap = [], repoStatuses = [], providerDisposables = [],
      repoWatchers = [], pulls = [], shown = []\<rparr>"

definition exampleRepo :: RepoConfig where
  "exampleRepo =
     \<lparr>repoId = ''repo-0'', repoName = ''Core'', localRepoPath = ''/a'', branch = ''main'',
      snippetsPath = ''snippets'', includeJsonFiles = True, enableGitPull = True\<rparr>"

definition exampleRepoB :: RepoConfig where
  "exampleRepoB =
     \<lparr>repoId = ''repo-1'', repoName = ''Repo 2 (/b)'', localRepoPath = ''/b'', branch = ''dev'',
      snippetsPath = ''snippets'', includeJsonFiles = False, enableGitPull = True\<rparr>"

definition exampleOptions :: options where
  "exampleOptions = \<lparr>showNotifications = True, allowGitPull = True\<rparr>"

definition exampleConfig :: Config where
  "exampleConfig =
     \<lparr>repositories =
        ReposArray
          [Some \<lparr>r_name = CStr ''Core'', r_localRepoPath = CStr ''/a'', r_branch = CUndefined,
                  r_snippetsPath = CUndefined, r_includeJsonFiles = CUndefined,
                  r_enableGitPull = CUndefined\<rparr>,
           Some \<lparr>r_name = CUndefined, r_localRepoPath = CStr '' /b '', r_branch = CStr ''dev'',
                  r_snippetsPath = CNull, r_includeJsonFiles = CBool False,
                  r_enableGitPull = CStr ''no''\<rparr>,
           Some \<lparr>r_name = CStr ''Gone'', r_localRepoPath = CStr ''  '', r_branch = CUndefined,
                  r_snippetsPath = CUndefined, r_includeJsonFiles = CUndefined,
                  r_enableGitPull = CUndefined\<rparr>],
      cfg_localRepoPath = CStr ''/legacy'', cfg_branch = None, cfg_snippetsPath = None,
      cfg_includeJsonFiles = None, cfg_enableGitPull = None\<rparr>"

text \<open>
  A second run on the same disk: every pull is rejected and takes a minute, nothing is
  notified, and the previous cycle has left another table.
\<close>

definition exampleHost2 :: host where
  "exampleHost2 =
     exampleHost\<lparr>execFile := (\<lambda>cmd args w.
       ((Some ''Command failed'', [], ''fatal: no remote''), w\<lparr>clock := clock w + 60\<rparr>))\<rparr>"

definition exampleState2 :: state where
  "exampleState2 =
     exampleState\<lparr>world := exampleWorld\<lparr>clock := 1000\<rparr>,
                  snippetMap := [(''python'', [])],
                  shown := [NoRepositories]\<rparr>"

definition exampleOptions2 :: options where
  "exampleOptions2 = \<lparr>showNotifications = False, allowGitPull = True\<rparr>"

section \<open>Properties of the string functions\<close>

lemma splitNewlines_not_Nil: "splitNewlines s \<noteq> []"
  by (induction s rule: splitNewlines.induct) (auto split: list.splits elim: pushFront.elims)

lemma jsJoin_pushFront: "ls \<noteq> [] \<Longrightarrow> jsJoin sep (pushFront c ls) = c # jsJoin sep ls"
  by (cases ls; cases "tl ls") auto

lemma jsJoin_Cons: "ls \<noteq> [] \<Longrightarrow> jsJoin sep (l # ls) = l @ sep @ jsJoin sep ls"
  by (cases ls) auto

lemma CR_neq_LF: "CR \<noteq> LF"
  by (simp add: CR_def LF_def)

lemma jsJoin_splitNewlines: "jsJoin [LF] (splitNewlines s) = crlfToLf s"
  by (induction s rule: splitNewlines.induct)
     (auto simp: jsJoin_pushFront jsJoin_Cons splitNewlines_not_Nil CR_neq_LF)

lemma length_pushFront: "ls \<noteq> [] \<Longrightarrow> length (pushFront c ls) = length ls"
  by (cases ls) auto

lemma length_splitNewlines: "length (splitNewlines s) = Suc (length (filter (\<lambda>c. c = LF) s))"
  by (induction s rule: splitNewlines.induct)
     (auto simp: length_pushFront splitNewlines_not_Nil CR_neq_LF)

lemma set_pushFront_concat: "ls \<noteq> [] \<Longrightarrow> set (concat (pushFront c ls)) = insert c (set (concat ls))"
  by (cases ls) auto

lemma splitNewlines_no_LF: "LF \<notin> set (concat (splitNewlines s))"
  by (induction s rule: splitNewlines.induct)
     (auto simp: set_pushFront_concat splitNewlines_not_Nil simp del: set_concat)

lemma splitSeparators_unfold:
  "splitSeparators s =
     takeWhile (\<lambda>x. \<not> isSeparator x) s #
       (case dropWhile (\<lambda>x. \<not> isSeparator x) s of
          [] \<Rightarrow> []
        | d # ds \<Rightarrow> splitSeparators (dropWhile isSeparator ds))"
  by (induction s) auto

lemma tokens_dropWhile: "tokens (dropWhile isSeparator s) = tokens s"
  by (subst (1 2) tokens.simps) simp

lemma filter_splitSeparators:
  "filter (\<lambda>t. t \<noteq> []) (splitSeparators s) = tokens s"
proof (induction s rule: length_induct)
  case (1 s)
  show ?case
  proof (cases s)
    case Nil
    then show ?thesis by (simp add: tokens.simps)
  next
    case (Cons c cs)
    show ?thesis
    proof (cases "isSeparator c")
      case True
      have "length (dropWhile isSeparator cs) < length s"
        using length_dropWhile_le[of isSeparator cs] Cons by simp
      then have "filter (\<lambda>t. t \<noteq> []) (splitSeparators (dropWhile isSeparator cs)) = tokens (dropWhile isSeparator cs)"
        using 1 by blast
      moreover have "tokens s = tokens (dropWhile isSeparator cs)"
        using tokens_dropWhile[of s] Cons True by simp
      ultimately show ?thesis using Cons True by simp
    next
      case False
      let ?r = "dropWhile (\<lambda>x. \<not> isSeparator x) cs"
      have ts: "tokens s = (c # takeWhile (\<lambda>x. \<not> isSeparator x) cs) # tokens ?r"
        using Cons False by (subst tokens.simps) simp
      have sp: "splitSeparators s = (c # takeWhile (\<lambda>x. \<not> isSeparator x) cs) #
           (case ?r of [] \<Rightarrow> [] | d # ds \<Rightarrow> splitSeparators (dropWhile isSeparator ds))"
        using Cons False by (subst splitSeparators_unfold) simp
      show ?thesis
      proof (cases ?r)
        case Nil
        then show ?thesis
          by (simp add: ts sp tokens.simps[of "[]"] del: dropWhile_eq_Nil_conv)
      next
        case (Cons d ds)
        have "length (dropWhile isSeparator ds) < length s"
          using length_dropWhile_le[of isSeparator ds] length_dropWhile_le[of "\<lambda>x. \<not> isSeparator x" cs] Cons \<open>s = c # cs\<close>
          by simp
        then have ih: "filter (\<lambda>t. t \<noteq> []) (splitSeparators (dropWhile isSeparator ds)) = tokens (dropWhile isSeparator ds)"
          using 1 by blast
        have "isSeparator d" using Cons hd_dropWhile[of "\<lambda>x. \<not> isSeparator x" cs] by auto
        then have "tokens ?r = tokens (dropWhile isSeparator ds)"
          using tokens_dropWhile[of ?r] Cons by simp
        then show ?thesis using ts sp ih Cons by simp
      qed
    qed
  qed
qed

lemma set_pushFront:
  "ls \<noteq> [] \<Longrightarrow> l \<in> set (pushFront c ls) \<Longrightarrow> l \<in> set ls \<or> (\<exists>l'. l = c # l' \<and> l' \<in> set ls)"
  by (cases ls) auto

lemma splitSeparators_not_Nil: "splitSeparators s \<noteq> []"
  by (subst splitSeparators_unfold) simp

lemma splitSeparators_pieces: "p \<in> set (splitSeparators s) \<Longrightarrow> c \<in> set p \<Longrightarrow> \<not> isSeparator c"
proof (induction s arbitrary: p rule: splitSeparators.induct)
  case 1
  then show ?case by simp
next
  case (2 d ds)
  show ?case
  proof (cases "isSeparator d")
    case True
    then show ?thesis using 2 by auto
  next
    case False
    then have "p \<in> set (pushFront d (splitSeparators ds))" using 2 by simp
    then have "p \<in> set (splitSeparators ds) \<or> (\<exists>l'. p = d # l' \<and> l' \<in> set (splitSeparators ds))"
      by (rule set_pushFront[OF splitSeparators_not_Nil])
    then show ?thesis using 2 False by auto
  qed
qed

lemma dropWhile_none: "\<forall>c \<in> set p. \<not> P c \<Longrightarrow> dropWhile P p = p"
  by (cases p) auto

lemma trim_id: "\<forall>c \<in> set p. \<not> isWhiteSpace c \<Longrightarrow> trim p = p"
  by (simp add: trim_def dropWhile_none)

lemma trim_piece: "p \<in> set (splitSeparators s) \<Longrightarrow> trim p = p"
  using splitSeparators_pieces[of p s] by (intro trim_id) (auto simp: isSeparator_def)

lemma map_trim_splitSeparators: "map trim (splitSeparators s) = splitSeparators s"
  by (rule map_idI) (rule trim_piece)

lemma languages_tokens:
  "filter (\<lambda>t. t \<noteq> []) (map trim (splitSeparators s)) = tokens s"
  by (simp add: map_trim_splitSeparators filter_splitSeparators)

lemma tokens_Nil_iff: "tokens s = [] \<longleftrightarrow> (\<forall>c \<in> set s. isSeparator c)"
proof -
  have "tokens s = [] \<longleftrightarrow> dropWhile isSeparator s = []"
    by (subst tokens.simps) (simp split: list.splits del: dropWhile_eq_Nil_conv)
  then show ?thesis by simp
qed

lemma all_dropWhile: "(\<forall>x \<in> set (dropWhile P s). P x) \<longleftrightarrow> (\<forall>x \<in> set s. P x)"
  by (induction s) auto

lemma trim_Nil_iff: "trim s = [] \<longleftrightarrow> (\<forall>c \<in> set s. isWhiteSpace c)"
  by (simp add: trim_def all_dropWhile)

lemma comma_not_white: "\<not> isWhiteSpace (CHR '','')"
  by (simp add: isWhiteSpace_def)

section \<open>Properties of the tables\<close>

lemma map_of_mapSet: "map_of (mapSet k v m) k' = (if k' = k then Some v else map_of m k')"
  by (induction m) auto

lemma mapGet_mapSet: "mapGet k' (mapSet k v m) = (if k' = k then Some v else mapGet k' m)"
  by (simp add: mapGet_def map_of_mapSet)

lemma mapHas_mapGet: "mapHas k m \<longleftrightarrow> mapGet k m \<noteq> None"
  by (simp add: mapHas_def mapGet_def map_of_eq_None_iff)

lemma map_fst_mapSet:
  "map fst (mapSet k v m) = (if k \<in> set (map fst m) then map fst m else map fst m @ [k])"
proof (induction m)
  case Nil
  show ?case by simp
next
  case (Cons p m)
  obtain k' v' where p: "p = (k', v')" by (cases p)
  show ?case using Cons unfolding p by (cases "k' = k") (simp_all split: if_splits)
qed

lemma mapKeys_mapSet: "set (mapKeys (mapSet k v m)) = insert k (set (mapKeys m))"
  by (auto simp: mapKeys_def map_fst_mapSet)

lemma bucket_bucketAppend:
  "bucket k (bucketAppend k' xs m) = (if k = k' then bucket k m @ xs else bucket k m)"
  by (auto simp: bucket_def bucketAppend_def Let_def mapGet_mapSet mapHas_mapGet split: option.splits)




section \<open>Normalisation of one entry\<close>

lemma normalizeSnippet_languages:
  "normalizeSnippet nm raw = Inr t \<Longrightarrow>
     languages t = (case scope raw of None \<Rightarrow> [''*'']
                    | Some s \<Rightarrow> if trim s \<noteq> [] then tokens s else [''*''])"
  by (auto simp: normalizeSnippet_def Let_def languages_tokens trim_def split: body_field.splits option.splits)

lemma normalizeSnippet_blank_scope:
  assumes "scope raw = None \<or> (\<exists>s. scope raw = Some s \<and> trim s = [])"
    and "normalizeSnippet nm raw = Inr t"
  shows "languages t = [''*'']"
  using assms normalizeSnippet_languages[of nm raw t] by auto

lemma normalizeSnippet_languages_empty_iff:
  assumes "normalizeSnippet nm raw = Inr t"
  shows "languages t = [] \<longleftrightarrow>
           (\<exists>s. scope raw = Some s \<and> (\<forall>c \<in> set s. isSeparator c) \<and> CHR '','' \<in> set s)"
proof (cases "scope raw")
  case None
  then show ?thesis using normalizeSnippet_languages[OF assms] by simp
next
  case (Some s)
  show ?thesis
  proof (cases "trim s = []")
    case True
    then have "CHR '','' \<notin> set s"
      using comma_not_white unfolding trim_Nil_iff by blast
    then show ?thesis using normalizeSnippet_languages[OF assms] Some True by simp
  next
    case False
    then obtain c where c: "c \<in> set s" "\<not> isWhiteSpace c"
      unfolding trim_Nil_iff by blast
    have l: "languages t = tokens s"
      using normalizeSnippet_languages[OF assms] Some False by simp
    have comma: "CHR '','' \<in> set s" if a: "\<forall>c \<in> set s. isSeparator c"
    proof -
      from a c(1) have "isSeparator c" by (rule bspec)
      with c(2) have "c = CHR '',''" by (simp add: isSeparator_def)
      with c(1) show ?thesis by simp
    qed
    show ?thesis
    proof
      assume "languages t = []"
      then have all: "\<forall>c \<in> set s. isSeparator c" by (simp add: l tokens_Nil_iff)
      with comma Some show "\<exists>s. scope raw = Some s \<and> (\<forall>c \<in> set s. isSeparator c) \<and> CHR '','' \<in> set s"
        by (intro exI[of _ s]) simp
    next
      assume "\<exists>s. scope raw = Some s \<and> (\<forall>c \<in> set s. isSeparator c) \<and> CHR '','' \<in> set s"
      then obtain s' where "scope raw = Some s'" "\<forall>c \<in> set s'. isSeparator c" by blast
      with Some have "\<forall>c \<in> set s. isSeparator c" by simp
      then show "languages t = []" by (simp add: l tokens_Nil_iff)
    qed
  qed
qed


text \<open>
  Claim C8. When the raw body is one string, \<^verbatim>\<open>normalizeSnippet\<close> returns, and its
  \<open>bodyLines\<close> are that string split at \<^verbatim>\<open>\r?\n\<close>: joined again with LF they give the
  string with each CR LF pair read as LF, no line holds an LF, and there is one line more
  than the string has LFs, so no empty line is added or dropped at the end. When the raw
  body is an array of strings, \<open>bodyLines\<close> is that array.
\<close>

theorem normalizeSnippet_bodyLines:
  "(body raw = BodyStr s \<longrightarrow>
      (\<exists>t. normalizeSnippet nm raw = Inr t
         \<and> bodyLines t = splitNewlines s
         \<and> jsJoin [LF] (bodyLines t) = crlfToLf s
         \<and> LF \<notin> set (concat (bodyLines t))
         \<and> length (bodyLines t) = Suc (length (filter (\<lambda>c. c = LF) s))))
 \<and> (body raw = BodyArr ls \<longrightarrow> (\<exists>t. normalizeSnippet nm raw = Inr t \<and> bodyLines t = ls))"
  by (simp add: normalizeSnippet_def Let_def jsJoin_splitNewlines splitNewlines_no_LF
        length_splitNewlines del: set_concat)

theorem normalizeSnippet_bodyLines_witness:
  "(\<exists>t. normalizeSnippet ''Log''
          \<lparr>prefix = PrefixStr ''logv'', body = BodyStr [CHR ''a'', CR, LF, CHR ''b'', LF],
           description = None, scope = None\<rparr> = Inr t
       \<and> bodyLines t = [''a'', ''b'', []])
 \<and> (\<exists>t. normalizeSnippet ''Log''
          \<lparr>prefix = PrefixStr ''logv'', body = BodyArr [''a'', ''b''],
           description = None, scope = None\<rparr> = Inr t
       \<and> bodyLines t = [''a'', ''b''])"
proof -
  let ?r1 = "\<lparr>prefix = PrefixStr ''logv'', body = BodyStr [CHR ''a'', CR, LF, CHR ''b'', LF],
           description = None, scope = None\<rparr>"
  let ?r2 = "\<lparr>prefix = PrefixStr ''logv'', body = BodyArr [''a'', ''b''],
           description = None, scope = None\<rparr>"
  have sp: "splitNewlines [CHR ''a'', CR, LF, CHR ''b'', LF] = [''a'', ''b'', []]"
    by (simp add: CR_def LF_def)
  have b1: "body ?r1 = BodyStr [CHR ''a'', CR, LF, CHR ''b'', LF]" by simp
  have b2: "body ?r2 = BodyArr [''a'', ''b'']" by simp
  from normalizeSnippet_bodyLines[of ?r1 "[CHR ''a'', CR, LF, CHR ''b'', LF]" "''Log''"] b1
  obtain t1 where t1: "normalizeSnippet ''Log'' ?r1 = Inr t1"
      "bodyLines t1 = splitNewlines [CHR ''a'', CR, LF, CHR ''b'', LF]"
    by blast
  from normalizeSnippet_bodyLines[of ?r2 _ "''Log''" "[''a'', ''b'']"] b2
  obtain t2 where t2: "normalizeSnippet ''Log'' ?r2 = Inr t2" "bodyLines t2 = [''a'', ''b'']"
    by blast
  from t1 t2 sp show ?thesis by (intro conjI exI[of _ t1] exI[of _ t2]) simp_all
qed

text \<open>
  Claim C1. The language list of a normalised entry is \<open>[''*'']\<close> when the scope is absent
  or blank (lemma \<open>normalizeSnippet_blank_scope\<close>), and it is empty exactly when the scope
  consists of commas and white space with at least one comma (lemma
  \<open>normalizeSnippet_languages_empty_iff\<close>). The scope \<^verbatim>\<open>","\<close> is such an input: it is
  not blank, and the entry is normalised with no language at all.
\<close>

theorem normalizeSnippet_separator_scope:
  "normalizeSnippet ''Log''
     \<lparr>prefix = PrefixStr ''logv'', body = BodyArr [''x''], description = None, scope = Some '',''\<rparr>
   = Inr \<lparr>name = ''Log'', prefixes = [''logv''], bodyLines = [''x''], description_t = None,
          languages = []\<rparr>"
  by (simp add: normalizeSnippet_def trim_def isWhiteSpace_def isSeparator_def)





section \<open>Counting and the loader\<close>

lemma fold_add: "fold (\<lambda>a c. c + f a) xs (n::nat) = n + sum_list (map f xs)"
  by (induction xs arbitrary: n) auto

lemma countTotalSnippets_sum: "countTotalSnippets m = sum_list (map (\<lambda>(k, arr). length arr) m)"
  by (simp add: countTotalSnippets_def mapValues_def fold_add comp_def case_prod_unfold)

lemma count_mapSet_new:
  "k \<notin> set (map fst m) \<Longrightarrow> countTotalSnippets (mapSet k v m) = countTotalSnippets m + length v"
  by (induction m) (auto simp: countTotalSnippets_sum)

lemma count_mapSet_old:
  "map_of m k = Some arr \<Longrightarrow>
     countTotalSnippets (mapSet k v m) + length arr = countTotalSnippets m + length v"
  by (induction m) (auto simp: countTotalSnippets_sum)

lemma countTotalSnippets_bucketAppend:
  "countTotalSnippets (bucketAppend k xs m) = countTotalSnippets m + length xs"
proof (cases "mapHas k m")
  case True
  then obtain arr where arr: "map_of m k = Some arr"
    by (auto simp: mapHas_mapGet mapGet_def)
  then show ?thesis
    using True count_mapSet_old[OF arr, of "arr @ xs"]
    by (simp add: bucketAppend_def mapGet_def)
next
  case False
  then have k: "k \<notin> set (map fst m)" by (simp add: mapHas_def)
  have g: "map_of (mapSet k [] m) k = Some []" by (simp add: map_of_mapSet)
  show ?thesis
    using False g count_mapSet_old[OF g, of xs] count_mapSet_new[OF k, of "[]"]
    by (simp add: bucketAppend_def mapGet_def)
qed

lemma countTotalSnippets_fileSnippet:
  "countTotalSnippets (fileSnippet t m) = countTotalSnippets m + length (languages t)"
proof -
  have "countTotalSnippets (fold (\<lambda>lang. bucketAppend (toLowerCase lang) [t]) ls m)
          = countTotalSnippets m + length ls" for ls
    by (induction ls arbitrary: m) (simp_all add: countTotalSnippets_bucketAppend)
  then show ?thesis by (simp add: fileSnippet_def)
qed

lemma countTotalSnippets_fold_fileSnippet:
  "countTotalSnippets (fold fileSnippet ts m)
     = countTotalSnippets m + sum_list (map (\<lambda>t. length (languages t)) ts)"
  by (induction ts arbitrary: m) (simp_all add: countTotalSnippets_fileSnippet)

lemma countTotalSnippets_mergeInto:
  "countTotalSnippets (mergeInto repoMap agg) = countTotalSnippets agg + countTotalSnippets repoMap"
proof -
  have "countTotalSnippets (fold (\<lambda>(lang, snips). bucketAppend lang snips) rm agg)
          = countTotalSnippets agg + sum_list (map (\<lambda>(k, arr). length arr) rm)" for rm
    by (induction rm arbitrary: agg) (auto simp: countTotalSnippets_bucketAppend)
  then show ?thesis by (simp add: mergeInto_def countTotalSnippets_sum)
qed

lemma loadEntries_eq:
  "loadEntries es m = (fold fileSnippet (normalizedPrefix es) m, firstError es)"
  by (induction es arbitrary: m) (auto split: sum.splits)

lemma loadFiles_eq:
  "loadFiles fs (m, ws) = (fold fileSnippet (snippetsOfFiles fs) m, ws @ warningsOf fs)"
proof (induction fs arbitrary: m ws)
  case Nil
  show ?case by (simp add: snippetsOfFiles_def warningsOf_def)
next
  case (Cons p fs)
  obtain f c where p: "p = (f, c)" by (cases p)
  show ?case unfolding p
    by (cases c; cases "firstError (case c of Parsed es \<Rightarrow> es | _ \<Rightarrow> [])")
       (simp_all add: Cons loadEntries_eq snippetsOfFiles_def warningsOf_def)
qed

lemma collect_eq:
  "disk' snippetDir = Some (IsDir entries) \<Longrightarrow>
   collectSnippetsFromFolder join disk' snippetDir includeJson
     = Inr (fold fileSnippet (snippetsOfFiles (eligibleFiles join disk' snippetDir includeJson)) [],
            warningsOf (eligibleFiles join disk' snippetDir includeJson))"
  by (simp add: collectSnippetsFromFolder_def eligibleFiles_def loadFiles_eq)


lemma mapSet_mapSet: "mapSet k v (mapSet k v' m) = mapSet k v m"
  by (induction m) auto

lemma processRepo_not_git:
  "\<not> isGitRepo h (world st) repo \<Longrightarrow>
   processRepo h allowPull repo (agg, st) =
     Inr (agg, st\<lparr>repoStatuses :=
                 mapSet (repoId repo)
                   \<lparr>statusId = repoId repo, statusName = repoName repo, lastSync = None,
                     lastError = Some (''Not a git repo: '' @ repoPathOf h repo),
                     snippetCount = 0\<rparr>
                   (repoStatuses st)\<rparr>)"
  by (auto simp: processRepo_def isGitRepo_def repoPathOf_def Let_def)

lemma processRepo_git:
  assumes "isGitRepo h (world st) repo"
    and "pullOutcome h allowPull repo (world st) = (err, w1)"
  shows "processRepo h allowPull repo (agg, st) =
     (if \<not> existsSync w1 (snippetDirOf h repo)
      then Inr (agg,
                st\<lparr>world := w1,
                    pulls := pulls st @ pullsOf h allowPull repo,
                    repoStatuses :=
                      mapSet (repoId repo)
                        \<lparr>statusId = repoId repo, statusName = repoName repo, lastSync = None,
                          lastError =
                            (if err = None
                             then Some (''Snippets folder not found: '' @ snippetDirOf h repo)
                             else err),
                          snippetCount = 0\<rparr>
                        (repoStatuses st)\<rparr>)
      else
        (case collectSnippetsFromFolder (pathJoin h) (disk w1) (snippetDirOf h repo)
                (includeJsonFiles repo) of
           Inl e \<Rightarrow> Inl e
         | Inr (repoMap, warnings) \<Rightarrow>
             Inr (mergeInto repoMap agg,
                  st\<lparr>world := w1,
                      pulls := pulls st @ pullsOf h allowPull repo,
                      repoStatuses :=
                        mapSet (repoId repo)
                          \<lparr>statusId = repoId repo, statusName = repoName repo,
                            lastSync = (if err = None then Some (clock w1) else None),
                            lastError = err,
                            snippetCount = countTotalSnippets repoMap\<rparr>
                          (repoStatuses st),
                      repoWatchers := repoWatchers st @ [snippetDirOf h repo],
                      shown := shown st @ warnings\<rparr>)))"
proof (cases "allowPull \<and> enableGitPull repo")
  case False
  then have e: "err = None" "w1 = world st" using assms(2) by (auto simp: pullOutcome_def)
  show ?thesis
    using assms(1) False
    by (auto simp: processRepo_def isGitRepo_def repoPathOf_def snippetDirOf_def pullsOf_def
          Let_def e split: sum.splits)
next
  case True
  obtain r w' where rw: "runGitPull h (repoPathOf h repo) (branch repo) (world st) = (r, w')"
    by (cases "runGitPull h (repoPathOf h repo) (branch repo) (world st)")
  show ?thesis
  proof (cases r)
    case None
    then have e: "err = None" "w1 = w'" using assms(2) True rw by (auto simp: pullOutcome_def)
    show ?thesis
      using assms(1) True rw None
      by (auto simp: processRepo_def isGitRepo_def repoPathOf_def snippetDirOf_def pullsOf_def
            Let_def e split: sum.splits)
  next
    case (Some msg)
    then have e: "err = Some (''git pull failed: '' @ msg)" "w1 = w'"
      using assms(2) True rw by (auto simp: pullOutcome_def)
    show ?thesis
      using assms(1) True rw Some
      by (auto simp: processRepo_def isGitRepo_def repoPathOf_def snippetDirOf_def pullsOf_def
            Let_def mapSet_mapSet e split: sum.splits)
  qed
qed

text \<open>
  Claim C5. For a source that passes the git check and whose snippets folder is a
  directory when it is read, the pass of the loop ends without exception and records a
  status whose \<open>snippetCount\<close> is \<^verbatim>\<open>countTotalSnippets\<close> of the table loaded from that
  folder: the sum of the lengths of the buckets of that table, which is also the sum,
  over the snippets loaded, of the number of languages of each.
\<close>

theorem snippetCount_of_loaded_source:
  assumes "isGitRepo h (world st) repo"
    and "pullOutcome h allowPull repo (world st) = (err, w1)"
    and "disk w1 (snippetDirOf h repo) = Some (IsDir entries)"
  shows "\<exists>repoMap ws st' status.
           collectSnippetsFromFolder (pathJoin h) (disk w1) (snippetDirOf h repo)
             (includeJsonFiles repo) = Inr (repoMap, ws)
         \<and> processRepo h allowPull repo (agg, st) = Inr (mergeInto repoMap agg, st')
         \<and> mapGet (repoId repo) (repoStatuses st') = Some status
         \<and> snippetCount status = countTotalSnippets repoMap
         \<and> snippetCount status = sum_list (map (\<lambda>(lang, snips). length snips) repoMap)
         \<and> snippetCount status =
             sum_list (map (\<lambda>t. length (languages t))
               (snippetsOfFiles (eligibleFiles (pathJoin h) (disk w1) (snippetDirOf h repo)
                  (includeJsonFiles repo))))"
proof -
  let ?files = "eligibleFiles (pathJoin h) (disk w1) (snippetDirOf h repo) (includeJsonFiles repo)"
  let ?repoMap = "fold fileSnippet (snippetsOfFiles ?files) []"
  have c: "collectSnippetsFromFolder (pathJoin h) (disk w1) (snippetDirOf h repo)
             (includeJsonFiles repo) = Inr (?repoMap, warningsOf ?files)"
    using assms(3) by (rule collect_eq)
  have e: "existsSync w1 (snippetDirOf h repo)"
    using assms(3) by (simp add: existsSync_def)
  have n: "countTotalSnippets ?repoMap
             = sum_list (map (\<lambda>t. length (languages t)) (snippetsOfFiles ?files))"
  proof -
    have "countTotalSnippets [] = 0" by (simp add: countTotalSnippets_def mapValues_def)
    then show ?thesis by (simp only: countTotalSnippets_fold_fileSnippet add_0)
  qed
  have n2: "countTotalSnippets ?repoMap = sum_list (map (\<lambda>(lang, snips). length snips) ?repoMap)"
    by (rule countTotalSnippets_sum)
  show ?thesis
    unfolding processRepo_git[OF assms(1,2)] c
    using e n n2 by (simp add: mapGet_mapSet)
qed

theorem snippetCount_of_loaded_source_witness:
  "\<exists>st' status.
     processRepo exampleHost True exampleRepo ([], exampleState) =
       Inr (mergeInto
              [(''javascript'',
                [\<lparr>name = ''Log'', prefixes = [''logv''], bodyLines = [''console.log(x);''],
                  description_t = None, languages = [''javascript'']\<rparr>]),
               (''*'',
                [\<lparr>name = ''Todo'', prefixes = [''todo'', ''fix''], bodyLines = [''// TODO''],
                  description_t = Some ''note'', languages = [''*'']\<rparr>])] [], st')
   \<and> mapGet ''repo-0'' (repoStatuses st') = Some status
   \<and> snippetCount status = 2"
proof -
  let ?table = "[(''javascript'',
                [\<lparr>name = ''Log'', prefixes = [''logv''], bodyLines = [''console.log(x);''],
                  description_t = None, languages = [''javascript'']\<rparr>]),
               (''*'',
                [\<lparr>name = ''Todo'', prefixes = [''todo'', ''fix''], bodyLines = [''// TODO''],
                  description_t = Some ''note'', languages = [''*'']\<rparr>])]"
  have g: "isGitRepo exampleHost (world exampleState) exampleRepo"
    by (simp add: isGitRepo_def existsSync_def repoPathOf_def resolveRepoPath_def exampleHost_def
          exampleState_def exampleWorld_def exampleDisk_def exampleRepo_def)
  have p: "pullOutcome exampleHost True exampleRepo (world exampleState) = (None, world exampleState)"
    by (simp add: pullOutcome_def runGitPull_def exampleHost_def exampleRepo_def)
  have d: "disk (world exampleState) (snippetDirOf exampleHost exampleRepo) = Some (IsDir exampleFolder)"
    by (simp add: snippetDirOf_def repoPathOf_def resolveRepoPath_def exampleHost_def
          exampleState_def exampleWorld_def exampleDisk_def exampleRepo_def)
  have c: "map_sum id fst (collectSnippetsFromFolder (pathJoin exampleHost) (disk (world exampleState))
             (snippetDirOf exampleHost exampleRepo) (includeJsonFiles exampleRepo)) = Inr ?table"
    by code_simp
  have n: "countTotalSnippets ?table = 2" by code_simp
  have i: "repoId exampleRepo = ''repo-0''" by (simp add: exampleRepo_def)
  from snippetCount_of_loaded_source[OF g p d, of "[]"] c n
  show ?thesis unfolding i by auto
qed

lemma reportedCount_mapSet_new:
  "k \<notin> set (mapKeys m) \<Longrightarrow> reportedCount (mapSet k v m) = reportedCount m + snippetCount v"
  by (induction m) (auto simp: reportedCount_def mapValues_def mapKeys_def)

lemma processRepo_statuses_keys:
  assumes "processRepo h allowPull repo (agg, st) = Inr (agg', st')"
  shows "set (mapKeys (repoStatuses st')) = insert (repoId repo) (set (mapKeys (repoStatuses st)))"
proof (cases "isGitRepo h (world st) repo")
  case False
  then show ?thesis using assms by (auto simp: processRepo_not_git mapKeys_mapSet)
next
  case True
  obtain err w1 where p: "pullOutcome h allowPull repo (world st) = (err, w1)"
    by (cases "pullOutcome h allowPull repo (world st)")
  show ?thesis
    using assms unfolding processRepo_git[OF True p]
    by (auto simp: mapKeys_mapSet split: if_splits sum.splits)
qed

lemma processRepo_counts:
  assumes "processRepo h allowPull repo (agg, st) = Inr (agg', st')"
    and "repoId repo \<notin> set (mapKeys (repoStatuses st))"
  shows "countTotalSnippets agg' + reportedCount (repoStatuses st)
           = countTotalSnippets agg + reportedCount (repoStatuses st')"
proof (cases "isGitRepo h (world st) repo")
  case False
  then show ?thesis
    using assms by (auto simp: processRepo_not_git reportedCount_mapSet_new)
next
  case True
  obtain err w1 where p: "pullOutcome h allowPull repo (world st) = (err, w1)"
    by (cases "pullOutcome h allowPull repo (world st)")
  show ?thesis
    using assms unfolding processRepo_git[OF True p]
    by (auto simp: reportedCount_mapSet_new countTotalSnippets_mergeInto
          split: if_splits sum.splits)
qed

lemma syncLoop_counts:
  assumes "syncLoop h allowPull repos (agg, st) = Inr (agg', st')"
    and "distinct (map repoId repos)"
    and "\<forall>r \<in> set repos. repoId r \<notin> set (mapKeys (repoStatuses st))"
    and "countTotalSnippets agg = reportedCount (repoStatuses st)"
  shows "countTotalSnippets agg' = reportedCount (repoStatuses st')"
  using assms
proof (induction repos arbitrary: agg st)
  case Nil
  then show ?case by simp
next
  case (Cons r rs)
  from Cons.prems(1) obtain agg1 st1 where
    step: "processRepo h allowPull r (agg, st) = Inr (agg1, st1)"
    and rest: "syncLoop h allowPull rs (agg1, st1) = Inr (agg', st')"
    by (auto split: sum.splits)
  have fresh: "repoId r \<notin> set (mapKeys (repoStatuses st))"
    using Cons.prems(3) by simp
  have inv: "countTotalSnippets agg1 = reportedCount (repoStatuses st1)"
    using processRepo_counts[OF step fresh] Cons.prems(4) by simp
  have keys: "\<forall>r' \<in> set rs. repoId r' \<notin> set (mapKeys (repoStatuses st1))"
    using processRepo_statuses_keys[OF step] Cons.prems(2,3) by (auto simp: image_iff)
  show ?case
    using Cons.IH[OF rest _ keys inv] Cons.prems(2) by simp
qed

lemma readNat_digit: "d < 10 \<Longrightarrow> of_char (digitChar d) - 48 = (d::nat)"
  by (simp add: digitChar_def of_char_of)

lemma readNat_showNat: "readNat (showNat n) = n"
proof (induction n rule: showNat.induct)
  case (1 n)
  show ?case
  proof (cases "n < 10")
    case True
    then show ?thesis
      by (subst showNat.simps) (simp add: readNat_def readNat_digit)
  next
    case False
    then have ih: "readNat (showNat (n div 10)) = n div 10" using 1 by simp
    have "readNat (showNat n) = 10 * readNat (showNat (n div 10)) + (of_char (digitChar (n mod 10)) - 48)"
      using False by (subst showNat.simps) (simp add: readNat_def)
    then show ?thesis using ih by (simp add: readNat_digit)
  qed
qed

lemma showNat_inj: "showNat a = showNat b \<Longrightarrow> a = b"
  by (metis readNat_showNat)

lemma forEachRepo_ids:
  assumes "forEachRepo rs i res = Inr out"
    and "distinct (map repoId res)"
    and "\<forall>r \<in> set res. \<exists>j < i. repoId r = ''repo-'' @ showNat j"
  shows "distinct (map repoId out)"
  using assms
proof (induction rs arbitrary: i res)
  case Nil
  then show ?case by simp
next
  case (Cons e rs)
  then obtain r where e: "e = Some r" by (cases e) simp_all
  let ?p = "trim (toString (orElse (r_localRepoPath r) (CStr [])))"
  show ?case
  proof (cases "?p = []")
    case True
    have step: "forEachRepo rs (Suc i) res = Inr out"
      using Cons.prems(1) True e by (simp add: Let_def)
    have "\<forall>r \<in> set res. \<exists>j < Suc i. repoId r = ''repo-'' @ showNat j"
      using Cons.prems(3) less_Suc_eq by blast
    then show ?thesis using Cons.IH[OF step Cons.prems(2)] by blast
  next
    case False
    define d where "d = \<lparr>repoId = ''repo-'' @ showNat i,
        repoName = (if trim (toString (orElse (r_name r) (CStr []))) \<noteq> []
                    then trim (toString (orElse (r_name r) (CStr [])))
                    else ''Repo '' @ showNat (i + 1) @ '' ('' @ ?p @ '')''),
        localRepoPath = ?p,
        branch = toString (orElse (r_branch r) (CStr ''main'')),
        snippetsPath = toString (orElse (r_snippetsPath r) (CStr ''snippets'')),
        includeJsonFiles = booleanOrTrue (r_includeJsonFiles r),
        enableGitPull = booleanOrTrue (r_enableGitPull r)\<rparr>"
    have step: "forEachRepo rs (Suc i) (res @ [d]) = Inr out"
      using Cons.prems(1) False e by (simp add: Let_def d_def)
    have idd: "repoId d = ''repo-'' @ showNat i" by (simp add: d_def)
    have "repoId d \<notin> set (map repoId res)"
    proof
      assume "repoId d \<in> set (map repoId res)"
      then obtain r' where "r' \<in> set res" "repoId r' = repoId d" by auto
      then obtain j where "j < i" "''repo-'' @ showNat j = ''repo-'' @ showNat i"
        using Cons.prems(3) idd by metis
      then show False using showNat_inj by auto
    qed
    then have dist: "distinct (map repoId (res @ [d]))" using Cons.prems(2) by simp
    have "\<forall>r \<in> set (res @ [d]). \<exists>j < Suc i. repoId r = ''repo-'' @ showNat j"
      using Cons.prems(3) idd less_Suc_eq by auto
    then show ?thesis using Cons.IH[OF step dist] by blast
  qed
qed

lemma getRepoConfigs_distinct:
  "getRepoConfigs cfg = Inr repos \<Longrightarrow> distinct (map repoId repos)"
  using forEachRepo_ids[of _ 0 "[]" repos]
  by (auto simp: getRepoConfigs_def Let_def split: repos_setting.splits cfgval.splits if_splits)

text \<open>
  Claim C10. After every cycle that completes, the total count of the published table
  equals the sum of the \<open>snippetCount\<close> of the statuses of the cycle.
\<close>

theorem total_equals_reported:
  assumes "syncAllRepos h opts cfg st = Inr st'"
  shows "countTotalSnippets (snippetMap st') = reportedCount (repoStatuses st')"
proof -
  from assms obtain repos where repos: "getRepoConfigs cfg = Inr repos"
    by (cases "getRepoConfigs cfg") (simp_all add: syncAllRepos_def)
  show ?thesis
  proof (cases "length repos = 0")
    case True
    then show ?thesis
      using assms repos
      by (auto simp: syncAllRepos_def countTotalSnippets_def reportedCount_def mapValues_def)
  next
    case False
    then obtain agg st1 where
      loop: "syncLoop h (allowGitPull opts) repos
               ([], st\<lparr>repoStatuses := [], repoWatchers := []\<rparr>) = Inr (agg, st1)"
      and st': "snippetMap st' = agg" "repoStatuses st' = repoStatuses st1"
      using assms repos by (auto simp: syncAllRepos_def split: sum.splits)
    have "countTotalSnippets agg = reportedCount (repoStatuses st1)"
      by (rule syncLoop_counts[OF loop getRepoConfigs_distinct[OF repos]])
         (simp_all add: mapKeys_def countTotalSnippets_def reportedCount_def mapValues_def)
    then show ?thesis using st' by simp
  qed
qed

theorem total_equals_reported_witness:
  "\<exists>st'. syncAllRepos exampleHost exampleOptions exampleConfig exampleState = Inr st'
     \<and> countTotalSnippets (snippetMap st') = 2
     \<and> reportedCount (repoStatuses st') = 2"
proof -
  have "map_sum id (\<lambda>s. countTotalSnippets (snippetMap s))
          (syncAllRepos exampleHost exampleOptions exampleConfig exampleState) = Inr 2"
    by code_simp
  then obtain st' where r: "syncAllRepos exampleHost exampleOptions exampleConfig exampleState = Inr st'"
    and c: "countTotalSnippets (snippetMap st') = 2"
    by (cases "syncAllRepos exampleHost exampleOptions exampleConfig exampleState") auto
  from total_equals_reported[OF r] c have "reportedCount (repoStatuses st') = 2" by simp
  with r c show ?thesis by blast
qed

section \<open>The cycle\<close>

lemma processRepo_outcome:
  "processRepo h allowPull repo (agg, st) =
     (case repoOutcome h allowPull repo (world st) of
        Inl e \<Rightarrow> Inl e
      | Inr out \<Rightarrow> Inr (applyOutcome h repo out (agg, st)))"
proof (cases "isGitRepo h (world st) repo")
  case False
  then show ?thesis
    by (simp add: processRepo_not_git repoOutcome_def applyOutcome_def)
next
  case True
  obtain err w1 where p: "pullOutcome h allowPull repo (world st) = (err, w1)"
    by (cases "pullOutcome h allowPull repo (world st)")
  show ?thesis
    unfolding processRepo_git[OF True p]
    using True p
    by (auto simp: repoOutcome_def applyOutcome_def split: sum.splits)
qed

lemma bucket_mergeInto:
  "distinct (mapKeys repoMap) \<Longrightarrow> bucket k (mergeInto repoMap agg) = bucket k agg @ bucket k repoMap"
proof -
  have "distinct (map fst rm) \<Longrightarrow>
          bucket k (fold (\<lambda>(lang, snips). bucketAppend lang snips) rm a) = bucket k a @ bucket k rm"
    for rm :: snippet_table and a
  proof (induction rm arbitrary: a)
    case Nil
    show ?case by (simp add: bucket_def mapGet_def)
  next
    case (Cons p rm)
    obtain k' b where p: "p = (k', b)" by (cases p)
    have rest: "distinct (map fst rm)" and fresh: "k' \<notin> fst ` set rm"
      using Cons.prems p by simp_all
    have none: "bucket k' rm = []"
      using fresh by (simp add: bucket_def mapGet_def map_of_eq_None_iff[THEN iffD2])
    show ?case
      using Cons.IH[OF rest, of "bucketAppend k' b a"] none
      by (auto simp: p bucket_bucketAppend) (simp_all add: bucket_def mapGet_def)
  qed
  then show "distinct (mapKeys repoMap) \<Longrightarrow> ?thesis"
    by (simp add: mergeInto_def mapKeys_def)
qed

lemma syncLoop_append:
  "syncLoop h allowPull (xs @ ys) acc =
     (case syncLoop h allowPull xs acc of
        Inl e \<Rightarrow> Inl e
      | Inr acc' \<Rightarrow> syncLoop h allowPull ys acc')"
  by (induction xs arbitrary: acc) (auto split: sum.splits)

lemma filter_mapSet:
  "filter (\<lambda>(k, v). k \<noteq> rid) (mapSet k' v' m) =
     (if k' = rid then filter (\<lambda>(k, v). k \<noteq> rid) m
      else mapSet k' v' (filter (\<lambda>(k, v). k \<noteq> rid) m))"
  by (induction m) auto

lemma withoutStatus_fields [simp]:
  "world (withoutStatus rid st) = world st"
  "snippetMap (withoutStatus rid st) = snippetMap st"
  "providerDisposables (withoutStatus rid st) = providerDisposables st"
  "repoWatchers (withoutStatus rid st) = repoWatchers st"
  "pulls (withoutStatus rid st) = pulls st"
  "shown (withoutStatus rid st) = shown st"
  "repoStatuses (withoutStatus rid st) = filter (\<lambda>(k, v). k \<noteq> rid) (repoStatuses st)"
  by (simp_all add: withoutStatus_def)

lemma withoutStatus_eqI:
  assumes "world a = world b" "snippetMap a = snippetMap b"
    "providerDisposables a = providerDisposables b" "repoWatchers a = repoWatchers b"
    "pulls a = pulls b" "shown a = shown b"
    "filter (\<lambda>(k, v). k \<noteq> rid) (repoStatuses a) = filter (\<lambda>(k, v). k \<noteq> rid) (repoStatuses b)"
  shows "withoutStatus rid a = withoutStatus rid b"
  using assms by (intro state.equality) (simp_all add: withoutStatus_def)

lemma withoutStatus_eqD:
  assumes "withoutStatus rid a = withoutStatus rid b"
  shows "world a = world b" "snippetMap a = snippetMap b"
    "providerDisposables a = providerDisposables b" "repoWatchers a = repoWatchers b"
    "pulls a = pulls b" "shown a = shown b"
    "filter (\<lambda>(k, v). k \<noteq> rid) (repoStatuses a) = filter (\<lambda>(k, v). k \<noteq> rid) (repoStatuses b)"
  using arg_cong[OF assms, of world] arg_cong[OF assms, of snippetMap]
    arg_cong[OF assms, of providerDisposables] arg_cong[OF assms, of repoWatchers]
    arg_cong[OF assms, of pulls] arg_cong[OF assms, of shown] arg_cong[OF assms, of repoStatuses]
  by simp_all

lemma applyOutcome_frame:
  assumes "withoutStatus rid st1 = withoutStatus rid st2"
  shows "map_prod id (withoutStatus rid) (applyOutcome h repo out (agg, st1))
       = map_prod id (withoutStatus rid) (applyOutcome h repo out (agg, st2))"
proof -
  obtain w' ps status loaded where out: "out = (w', ps, status, loaded)"
    by (cases out)
  note d = withoutStatus_eqD[OF assms]
  show ?thesis
    unfolding out applyOutcome_def
    by (simp, intro withoutStatus_eqI) (simp_all add: d filter_mapSet)
qed

lemma processRepo_frame:
  assumes "withoutStatus rid st1 = withoutStatus rid st2"
  shows "map_sum id (map_prod id (withoutStatus rid)) (processRepo h allowPull repo (agg, st1))
       = map_sum id (map_prod id (withoutStatus rid)) (processRepo h allowPull repo (agg, st2))"
proof -
  have w: "world st1 = world st2" using withoutStatus_eqD(1)[OF assms] .
  show ?thesis
    unfolding processRepo_outcome w
    using applyOutcome_frame[OF assms]
    by (cases "repoOutcome h allowPull repo (world st2)") simp_all
qed

lemma syncLoop_frame:
  assumes "withoutStatus rid st1 = withoutStatus rid st2"
  shows "map_sum id (map_prod id (withoutStatus rid)) (syncLoop h allowPull repos (agg, st1))
       = map_sum id (map_prod id (withoutStatus rid)) (syncLoop h allowPull repos (agg, st2))"
  using assms
proof (induction repos arbitrary: agg st1 st2)
  case Nil
  then show ?case by simp
next
  case (Cons r rs)
  from processRepo_frame[OF Cons.prems, of h allowPull r agg]
  consider (err) e where "processRepo h allowPull r (agg, st1) = Inl e"
      "processRepo h allowPull r (agg, st2) = Inl e"
    | (ok) agg' s1 s2 where "processRepo h allowPull r (agg, st1) = Inr (agg', s1)"
      "processRepo h allowPull r (agg, st2) = Inr (agg', s2)"
      "withoutStatus rid s1 = withoutStatus rid s2"
    by (cases "processRepo h allowPull r (agg, st1)"; cases "processRepo h allowPull r (agg, st2)")
       auto
  then show ?case
  proof cases
    case err
    then show ?thesis by simp
  next
    case ok
    then show ?thesis using Cons.IH[OF ok(3)] by simp
  qed
qed

lemma invalid_file_is_file_level:
  assumes "isGitRepo h (world st) repo"
    and "pullOutcome h allowPull repo (world st) = (err, w1)"
    and "disk w1 (snippetDirOf h repo) = Some (IsDir entries)"
    and "eligibleFiles (pathJoin h) (disk w1) (snippetDirOf h repo) (includeJsonFiles repo)
           = fs1 @ (f, c) # fs2"
    and "fileError c = Some e"
  shows "\<exists>st' status.
           processRepo h allowPull repo (agg, st) =
             Inr (mergeInto
                    (fold fileSnippet
                       (snippetsOfFiles fs1 @ snippetsOfFile c @ snippetsOfFiles fs2) [])
                    agg, st')
         \<and> shown st' = shown st @ warningsOf fs1 @ [FailedToLoad f e] @ warningsOf fs2
         \<and> mapGet (repoId repo) (repoStatuses st') = Some status
         \<and> lastError status = err"
proof -
  have c: "collectSnippetsFromFolder (pathJoin h) (disk w1) (snippetDirOf h repo)
             (includeJsonFiles repo) =
           Inr (fold fileSnippet (snippetsOfFiles (fs1 @ (f, c) # fs2)) [],
                warningsOf (fs1 @ (f, c) # fs2))"
    using collect_eq[of "disk w1" "snippetDirOf h repo" entries "pathJoin h" "includeJsonFiles repo"]
      assms(3,4) by simp
  have e: "existsSync w1 (snippetDirOf h repo)"
    using assms(3) by (simp add: existsSync_def)
  show ?thesis
    unfolding processRepo_git[OF assms(1,2)] c
    using e assms(5) by (simp add: mapGet_mapSet snippetsOfFiles_def warningsOf_def)
qed

lemma unparsable_file_gives_nothing:
  "loadFiles (fs1 @ (f, Fails e) # fs2) (m, ws) =
     (fst (loadFiles (fs1 @ fs2) (m, ws)), ws @ warningsOf fs1 @ [FailedToLoad f e] @ warningsOf fs2)"
  by (simp add: loadFiles_eq snippetsOfFiles_def warningsOf_def)

lemma runGitPull_disk:
  assumes "\<forall>cmd args w. disk (snd (execFile h cmd args w)) = disk w"
  shows "disk (snd (runGitPull h p b w)) = disk w"
proof -
  let ?args = "[''-C'', p, ''pull'', ''--ff-only'', ''origin'', b]"
  obtain r out errout w' where e: "execFile h ''git'' ?args w = ((r, out, errout), w')"
    by (cases "execFile h ''git'' ?args w") auto
  have "disk w' = disk w" using assms e by (metis snd_conv)
  then show ?thesis using e by (cases r) (simp_all add: runGitPull_def)
qed

lemma pullOutcome_disk:
  assumes "\<forall>cmd args w. disk (snd (execFile h cmd args w)) = disk w"
  shows "disk (snd (pullOutcome h allowPull repo w)) = disk w"
proof (cases "allowPull \<and> enableGitPull repo")
  case False
  then show ?thesis by (auto simp: pullOutcome_def)
next
  case True
  obtain r w' where r: "runGitPull h (repoPathOf h repo) (branch repo) w = (r, w')"
    by (cases "runGitPull h (repoPathOf h repo) (branch repo) w")
  then have "disk w' = disk w"
    using runGitPull_disk[OF assms, of "repoPathOf h repo" "branch repo" w] by simp
  then show ?thesis using True r by (cases r) (simp_all add: pullOutcome_def)
qed

lemma repoOutcome_deterministic:
  assumes paths: "isAbsolute h1 = isAbsolute h2" "pathJoin h1 = pathJoin h2"
      "workspaceFolder h1 = workspaceFolder h2" "cwd h1 = cwd h2"
    and keep1: "\<forall>cmd args w. disk (snd (execFile h1 cmd args w)) = disk w"
    and keep2: "\<forall>cmd args w. disk (snd (execFile h2 cmd args w)) = disk w"
    and d: "disk w1 = disk w2"
  shows "map_sum id (\<lambda>(w', ps, status, loaded). (disk w', map_option fst loaded))
           (repoOutcome h1 allow1 repo w1)
       = map_sum id (\<lambda>(w', ps, status, loaded). (disk w', map_option fst loaded))
           (repoOutcome h2 allow2 repo w2)"
proof -
  have rp: "repoPathOf h1 repo = repoPathOf h2 repo"
    using paths by (simp add: repoPathOf_def resolveRepoPath_def split: option.splits)
  have sd: "snippetDirOf h1 repo = snippetDirOf h2 repo"
    using paths rp by (simp add: snippetDirOf_def)
  have ex: "existsSync w1 = existsSync w2" using d by (simp add: existsSync_def fun_eq_iff)
  have git: "isGitRepo h1 w1 repo = isGitRepo h2 w2 repo"
    using paths rp ex by (simp add: isGitRepo_def)
  obtain e1 v1 where p1: "pullOutcome h1 allow1 repo w1 = (e1, v1)"
    by (cases "pullOutcome h1 allow1 repo w1")
  obtain e2 v2 where p2: "pullOutcome h2 allow2 repo w2 = (e2, v2)"
    by (cases "pullOutcome h2 allow2 repo w2")
  have dv: "disk v1 = disk v2"
    using pullOutcome_disk[OF keep1, of allow1 repo w1] pullOutcome_disk[OF keep2, of allow2 repo w2]
      p1 p2 d by simp
  have exv: "existsSync v1 = existsSync v2" using dv by (simp add: existsSync_def fun_eq_iff)
  show ?thesis
    unfolding repoOutcome_def
    using git p1 p2 dv exv sd paths(2) d
    by (auto split: sum.splits)
qed

lemma processRepo_deterministic:
  assumes paths: "isAbsolute h1 = isAbsolute h2" "pathJoin h1 = pathJoin h2"
      "workspaceFolder h1 = workspaceFolder h2" "cwd h1 = cwd h2"
    and keep1: "\<forall>cmd args w. disk (snd (execFile h1 cmd args w)) = disk w"
    and keep2: "\<forall>cmd args w. disk (snd (execFile h2 cmd args w)) = disk w"
    and d: "disk (world st1) = disk (world st2)"
  shows "map_sum id (\<lambda>(agg', st'). (agg', disk (world st'))) (processRepo h1 allow1 repo (agg, st1))
       = map_sum id (\<lambda>(agg', st'). (agg', disk (world st'))) (processRepo h2 allow2 repo (agg, st2))"
  using repoOutcome_deterministic[OF paths keep1 keep2 d, of allow1 repo allow2]
  unfolding processRepo_outcome
  by (cases "repoOutcome h1 allow1 repo (world st1)"; cases "repoOutcome h2 allow2 repo (world st2)")
     (auto simp: applyOutcome_def split: option.splits)

lemma syncLoop_deterministic:
  assumes paths: "isAbsolute h1 = isAbsolute h2" "pathJoin h1 = pathJoin h2"
      "workspaceFolder h1 = workspaceFolder h2" "cwd h1 = cwd h2"
    and keep1: "\<forall>cmd args w. disk (snd (execFile h1 cmd args w)) = disk w"
    and keep2: "\<forall>cmd args w. disk (snd (execFile h2 cmd args w)) = disk w"
    and d: "disk (world st1) = disk (world st2)"
  shows "map_sum id fst (syncLoop h1 allow1 repos (agg, st1))
       = map_sum id fst (syncLoop h2 allow2 repos (agg, st2))"
  using d
proof (induction repos arbitrary: agg st1 st2)
  case Nil
  show ?case by simp
next
  case (Cons r rs)
  from processRepo_deterministic[OF paths keep1 keep2 Cons.prems, of allow1 r agg allow2]
  consider (err) e where "processRepo h1 allow1 r (agg, st1) = Inl e"
      "processRepo h2 allow2 r (agg, st2) = Inl e"
    | (ok) agg' s1 s2 where "processRepo h1 allow1 r (agg, st1) = Inr (agg', s1)"
      "processRepo h2 allow2 r (agg, st2) = Inr (agg', s2)"
      "disk (world s1) = disk (world s2)"
    by (cases "processRepo h1 allow1 r (agg, st1)"; cases "processRepo h2 allow2 r (agg, st2)")
       auto
  then show ?case
  proof cases
    case err
    then show ?thesis by simp
  next
    case ok
    then show ?thesis using Cons.IH[OF ok(3)] by simp
  qed
qed

text \<open>
  Claim C9. Two runs of \<^verbatim>\<open>syncAllRepos\<close> with the same settings, with hosts that resolve
  paths alike and whose pulls leave the disk as it is, and with the same disk publish the
  same table (or end with the same exception), whatever the options, the outcome of the
  pulls, the time and the state of the previous cycle are.
\<close>

theorem aggregated_table_deterministic:
  assumes "isAbsolute h1 = isAbsolute h2" and "pathJoin h1 = pathJoin h2"
    and "workspaceFolder h1 = workspaceFolder h2" and "cwd h1 = cwd h2"
    and "\<forall>cmd args w. disk (snd (execFile h1 cmd args w)) = disk w"
    and "\<forall>cmd args w. disk (snd (execFile h2 cmd args w)) = disk w"
    and "disk (world st1) = disk (world st2)"
  shows "map_sum id snippetMap (syncAllRepos h1 opts1 cfg st1)
       = map_sum id snippetMap (syncAllRepos h2 opts2 cfg st2)"
proof (cases "getRepoConfigs cfg")
  case (Inl e)
  then show ?thesis by (simp add: syncAllRepos_def)
next
  case (Inr repos)
  show ?thesis
  proof (cases "length repos = 0")
    case True
    then show ?thesis using Inr by (simp add: syncAllRepos_def)
  next
    case False
    let ?s1 = "st1\<lparr>repoStatuses := [], repoWatchers := []\<rparr>"
    let ?s2 = "st2\<lparr>repoStatuses := [], repoWatchers := []\<rparr>"
    have d: "disk (world ?s1) = disk (world ?s2)" using assms(7) by simp
    have "map_sum id fst (syncLoop h1 (allowGitPull opts1) repos ([], ?s1))
        = map_sum id fst (syncLoop h2 (allowGitPull opts2) repos ([], ?s2))"
      by (rule syncLoop_deterministic[OF assms(1-6) d])
    then show ?thesis
      using False Inr
      by (cases "syncLoop h1 (allowGitPull opts1) repos ([], ?s1)";
          cases "syncLoop h2 (allowGitPull opts2) repos ([], ?s2)")
         (auto simp: syncAllRepos_def)
  qed
qed

theorem aggregated_table_deterministic_witness:
  "map_sum id snippetMap (syncAllRepos exampleHost exampleOptions exampleConfig exampleState)
     = map_sum id snippetMap (syncAllRepos exampleHost2 exampleOptions2 exampleConfig exampleState2)"
proof -
  have "isAbsolute exampleHost = isAbsolute exampleHost2"
    and "pathJoin exampleHost = pathJoin exampleHost2"
    and "workspaceFolder exampleHost = workspaceFolder exampleHost2"
    and "cwd exampleHost = cwd exampleHost2"
    and "\<forall>cmd args w. disk (snd (execFile exampleHost cmd args w)) = disk w"
    and "\<forall>cmd args w. disk (snd (execFile exampleHost2 cmd args w)) = disk w"
    and "disk (world exampleState) = disk (world exampleState2)"
    by (simp_all add: exampleHost2_def exampleHost_def exampleState2_def exampleState_def
          exampleWorld_def)
  then show ?thesis by (rule aggregated_table_deterministic)
qed

text \<open>
  Claim C4. A file that cannot be read or parsed gives a warning and nothing else
  (lemma \<open>unparsable_file_gives_nothing\<close>), and no warning of the loader reaches
  \<open>lastError\<close> (lemma \<open>invalid_file_is_file_level\<close>). A file that parses and has an entry
  without a body is not skipped as a whole: in the folder below, the second file has the
  entries \<open>Todo\<close> and \<open>Bad\<close>, and the loader shows the warning for the file and keeps \<open>Todo\<close>.
\<close>

theorem partly_loaded_file:
  "collectSnippetsFromFolder (\<lambda>a b. a @ ''/'' @ b)
     (\<lambda>p. if p = ''/a/snippets''
          then Some (IsDir
            [FileEnt ''demo.code-snippets''
               (Parsed [(''Log'', \<lparr>prefix = PrefixStr ''logv'', body = BodyArr [''console.log(x);''],
                                   description = None, scope = Some ''javascript''\<rparr>)]),
             FileEnt ''todo.code-snippets''
               (Parsed [(''Todo'', \<lparr>prefix = PrefixArr [''todo'', ''fix''], body = BodyStr ''// TODO'',
                                    description = Some ''note'', scope = None\<rparr>),
                        (''Bad'', \<lparr>prefix = PrefixStr ''bad'', body = BodyOther,
                                   description = None, scope = None\<rparr>)])])
          else None)
     ''/a/snippets'' True
   = Inr ([(''javascript'',
            [\<lparr>name = ''Log'', prefixes = [''logv''], bodyLines = [''console.log(x);''],
              description_t = None, languages = [''javascript'']\<rparr>]),
           (''*'',
            [\<lparr>name = ''Todo'', prefixes = [''todo'', ''fix''], bodyLines = [''// TODO''],
              description_t = Some ''note'', languages = [''*'']\<rparr>])],
          [FailedToLoad ''/a/snippets/todo.code-snippets'' TypeError])"
  by code_simp

section \<open>The source registry\<close>

lemma toString_orElse: "toString (orElse v (CStr d)) = textOr v d"
  by (cases v) (auto simp: orElse_def textOr_def)

lemma trim_empty: "trim [] = []"
  by (simp add: trim_def)

lemma booleanOrTrue_case: "booleanOrTrue v = (case v of CBool b \<Rightarrow> b | _ \<Rightarrow> True)"
  by (simp add: booleanOrTrue_def)

lemma resolveEntry_blank:
  "trim (textOr (r_localRepoPath r) []) = [] \<Longrightarrow> resolveEntry i r = None"
  by (simp add: resolveEntry_def)

lemma resolveEntry_path:
  "trim (textOr (r_localRepoPath r) []) \<noteq> [] \<Longrightarrow>
   resolveEntry i r =
     Some \<lparr>repoId = ''repo-'' @ showNat i,
           repoName = (if trim (textOr (r_name r) []) = []
                       then ''Repo '' @ showNat (i + 1) @ '' ('' @ trim (textOr (r_localRepoPath r) []) @ '')''
                       else trim (textOr (r_name r) [])),
           localRepoPath = trim (textOr (r_localRepoPath r) []),
           branch = textOr (r_branch r) ''main'',
           snippetsPath = textOr (r_snippetsPath r) ''snippets'',
           includeJsonFiles = (case r_includeJsonFiles r of CBool b \<Rightarrow> b | _ \<Rightarrow> True),
           enableGitPull = (case r_enableGitPull r of CBool b \<Rightarrow> b | _ \<Rightarrow> True)\<rparr>"
  by (simp add: resolveEntry_def Let_def)

lemma forEachRepo_eq:
  "forEachRepo es i res =
     (if None \<in> set es then Inl TypeError
      else Inr (res @ List.map_filter (\<lambda>(index, entry). Option.bind entry (resolveEntry index))
                        (enumerate i es)))"
proof (induction es arbitrary: i res)
  case Nil
  show ?case by (simp add: map_filter_simps)
next
  case (Cons e es)
  show ?case
  proof (cases e)
    case None
    then show ?thesis by simp
  next
    case (Some r)
    show ?thesis
    proof (cases "trim (textOr (r_localRepoPath r) []) = []")
      case True
      then show ?thesis
        using Some resolveEntry_blank[OF True, of i]
        by (simp add: toString_orElse Cons.IH map_filter_simps)
    next
      case False
      then show ?thesis
        using Some resolveEntry_path[OF False, of i]
        by (simp add: toString_orElse Cons.IH map_filter_simps Let_def booleanOrTrue_case)
    qed
  qed
qed

lemma legacy_eq:
  "(case orElse (cfg_localRepoPath cfg) (CStr []) of
      CStr p \<Rightarrow>
        let fallbackPath = trim p
        in if fallbackPath = [] then Inr []
           else Inr [\<lparr>repoId = ''fallback'',
                      repoName = ''Default Repo'',
                      localRepoPath = fallbackPath,
                      branch = stringOr (cfg_branch cfg) ''main'',
                      snippetsPath = stringOr (cfg_snippetsPath cfg) ''snippets'',
                      includeJsonFiles = boolOr (cfg_includeJsonFiles cfg) True,
                      enableGitPull = boolOr (cfg_enableGitPull cfg) True\<rparr>]
    | _ \<Rightarrow> Inl TypeError)
   = (if cfg_localRepoPath cfg = CBool True then Inl TypeError else Inr (legacySource cfg))"
  by (cases "cfg_localRepoPath cfg")
     (auto simp: orElse_def textOr_def legacySource_def stringOr_def boolOr_def Let_def trim_empty
        split: option.splits)

text \<open>
  Where it does not raise, \<^verbatim>\<open>getRepoConfigs\<close> is the source registry of the description,
  and it raises exactly on the settings listed there.
\<close>

lemma getRepoConfigs_resolves:
  "getRepoConfigs cfg = (if registryRaises cfg then Inl TypeError else Inr (resolveSources cfg))"
proof -
  have unfolded:
    "getRepoConfigs cfg =
       (let repos = (case repositories cfg of
                       ReposArray es \<Rightarrow> ReposArray es
                     | ReposOther v \<Rightarrow> if truthy v then ReposOther v else ReposArray [])
        in if lengthPositive repos
           then (case repos of
                   ReposArray es \<Rightarrow> forEachRepo es 0 []
                 | ReposOther v \<Rightarrow> Inl TypeError)
           else (if cfg_localRepoPath cfg = CBool True then Inl TypeError
                 else Inr (legacySource cfg)))"
    by (simp only: getRepoConfigs_def legacy_eq)
  show ?thesis
  proof (cases "repositories cfg")
    case (ReposArray es)
    then show ?thesis
      using forEachRepo_eq[of es 0 "[]"]
      by (cases es)
         (simp_all add: unfolded lengthPositive_def registryRaises_def resolveSources_def)
  next
    case (ReposOther v)
    show ?thesis
    proof (cases v)
      case (CStr s)
      then show ?thesis
        using ReposOther
        by (cases s)
           (simp_all add: unfolded lengthPositive_def registryRaises_def resolveSources_def)
    qed (use ReposOther in \<open>simp_all add: unfolded lengthPositive_def registryRaises_def
           resolveSources_def\<close>)
  qed
qed

lemma getRepoConfigs_example:
  "getRepoConfigs exampleConfig =
     Inr [\<lparr>repoId = ''repo-0'', repoName = ''Core'', localRepoPath = ''/a'',
            branch = ''main'', snippetsPath = ''snippets'',
            includeJsonFiles = True, enableGitPull = True\<rparr>,
          \<lparr>repoId = ''repo-1'', repoName = ''Repo 2 (/b)'', localRepoPath = ''/b'',
            branch = ''dev'', snippetsPath = ''snippets'',
            includeJsonFiles = False, enableGitPull = True\<rparr>]"
  by code_simp

lemma getRepoConfigs_path_not_text:
  "getRepoConfigs
     \<lparr>repositories = ReposArray [], cfg_localRepoPath = CBool True, cfg_branch = None,
      cfg_snippetsPath = None, cfg_includeJsonFiles = None, cfg_enableGitPull = None\<rparr>
   = Inl TypeError"
  by code_simp

text \<open>
  Claim C7. A list entry without a path is dropped without error when it is an object,
  but not when it is \<^verbatim>\<open>null\<close>: on the list below, whose first entry names the repository
  \<^verbatim>\<open>/a\<close> and whose second entry is \<^verbatim>\<open>null\<close>, \<^verbatim>\<open>getRepoConfigs\<close> raises a \<^verbatim>\<open>TypeError\<close> and
  returns no source at all.
\<close>

theorem getRepoConfigs_null_entry:
  "getRepoConfigs
     \<lparr>repositories =
        ReposArray
          [Some \<lparr>r_name = CStr ''Core'', r_localRepoPath = CStr ''/a'', r_branch = CUndefined,
                  r_snippetsPath = CUndefined, r_includeJsonFiles = CUndefined,
                  r_enableGitPull = CUndefined\<rparr>,
           None],
      cfg_localRepoPath = CUndefined, cfg_branch = None, cfg_snippetsPath = None,
      cfg_includeJsonFiles = None, cfg_enableGitPull = None\<rparr>
   = Inl TypeError"
  by code_simp

section \<open>The completion providers\<close>

lemma fold_seen:
  "distinct acc \<Longrightarrow>
     distinct (fold (\<lambda>x seen. if x \<in> set seen then seen else seen @ [x]) xs acc)
   \<and> set (fold (\<lambda>x seen. if x \<in> set seen then seen else seen @ [x]) xs acc) = set acc \<union> set xs"
  by (induction xs arbitrary: acc) auto

lemma arrayFromSet_set: "distinct (arrayFromSet xs) \<and> set (arrayFromSet xs) = set xs"
  using fold_seen[of "[]" xs] by (simp add: arrayFromSet_def)

lemma fold_seen_distinct:
  "distinct (acc @ xs) \<Longrightarrow>
     fold (\<lambda>x seen. if x \<in> set seen then seen else seen @ [x]) xs acc = acc @ xs"
  by (induction xs arbitrary: acc) auto

lemma arrayFromSet_distinct: "distinct xs \<Longrightarrow> arrayFromSet xs = xs"
  using fold_seen_distinct[of "[]" xs] by (simp add: arrayFromSet_def)

lemma lastChars_filter:
  "set (filter (\<lambda>s. s \<noteq> []) (map (\<lambda>p. if length p > 0 then [last p] else []) ps))
     = (\<lambda>p. [last p]) ` set (filter (\<lambda>p. p \<noteq> []) ps)"
  by (induction ps) auto

lemma triggerCharsOf_lastChars:
  "distinct (triggerCharsOf snips) \<and> set (triggerCharsOf snips) = lastChars snips"
  unfolding triggerCharsOf_def lastChars_def
  using arrayFromSet_set lastChars_filter by metis

lemma concat_map_unless:
  "concat (map (\<lambda>x. if x = a then [] else [f x]) xs) = map f (filter (\<lambda>x. x \<noteq> a) xs)"
  by (induction xs) auto

lemma bucket_present:
  "wfTable m \<Longrightarrow> k \<in> set (mapKeys m) \<Longrightarrow> bucket k m \<noteq> []"
proof -
  assume wf: "wfTable m" and k: "k \<in> set (mapKeys m)"
  then have "map_of m k \<noteq> None" by (simp add: mapKeys_def map_of_eq_None_iff)
  then obtain b where b: "map_of m k = Some b" by auto
  then have "(k, b) \<in> set m" by (rule map_of_SomeD)
  then have "b \<noteq> []" using wf by (auto simp: wfTable_def list_all_iff)
  then show ?thesis using b by (simp add: bucket_def mapGet_def)
qed

lemma registerCompletionProviders_wf:
  assumes "wfTable m"
  shows "registerCompletionProviders m =
           map (scopedProvider m) (filter (\<lambda>lang. lang \<noteq> ''*'') (mapKeys m))
           @ (if mapKeys m = [''*''] then [catchAllProvider m] else [])"
proof -
  have d: "arrayFromSet (mapKeys m) = mapKeys m"
    using assms by (simp add: wfTable_def arrayFromSet_distinct)
  have g: "(case mapGet ''*'' m of Some g \<Rightarrow> g | None \<Rightarrow> []) = bucket ''*'' m"
    by (simp add: bucket_def)
  have l: "(case mapGet lang m of Some g \<Rightarrow> g | None \<Rightarrow> []) = bucket lang m" for lang
    by (simp add: bucket_def)
  have c: "(length (bucket ''*'' m) > 0 \<and> length (mapKeys m) = 1 \<and> ''*'' \<in> set (mapKeys m))
        \<longleftrightarrow> mapKeys m = [''*'']"
  proof
    assume "length (bucket ''*'' m) > 0 \<and> length (mapKeys m) = 1 \<and> ''*'' \<in> set (mapKeys m)"
    then show "mapKeys m = [''*'']" by (cases "mapKeys m") auto
  next
    assume k: "mapKeys m = [''*'']"
    then have "bucket ''*'' m \<noteq> []" using bucket_present[OF assms, of "''*''"] by simp
    then show "length (bucket ''*'' m) > 0 \<and> length (mapKeys m) = 1 \<and> ''*'' \<in> set (mapKeys m)"
      using k by simp
  qed
  show ?thesis
    unfolding registerCompletionProviders_def Let_def d g l c
    by (simp add: concat_map_unless scopedProvider_def catchAllProvider_def)
qed

lemma bucketAppend_eq: "bucketAppend k xs m = mapSet k (bucket k m @ xs) m"
proof (cases "mapHas k m")
  case True
  then show ?thesis
    by (auto simp: bucketAppend_def bucket_def mapHas_mapGet)
next
  case False
  then show ?thesis
    by (simp add: bucketAppend_def bucket_def mapHas_mapGet mapGet_mapSet mapSet_mapSet)
qed

lemma list_all_mapSet: "list_all P m \<Longrightarrow> P (k, v) \<Longrightarrow> list_all P (mapSet k v m)"
  by (induction m) auto

lemma distinct_mapSet: "distinct (mapKeys m) \<Longrightarrow> distinct (mapKeys (mapSet k v m))"
  by (simp add: mapKeys_def map_fst_mapSet)

lemma wfTable_bucketAppend: "wfTable m \<Longrightarrow> xs \<noteq> [] \<Longrightarrow> wfTable (bucketAppend k xs m)"
  by (simp add: wfTable_def bucketAppend_eq distinct_mapSet list_all_mapSet)

lemma wfTable_fileSnippet: "wfTable m \<Longrightarrow> wfTable (fileSnippet t m)"
proof -
  have "wfTable m \<Longrightarrow> wfTable (fold (\<lambda>lang. bucketAppend (toLowerCase lang) [t]) ls m)" for ls
    by (induction ls arbitrary: m) (simp_all add: wfTable_bucketAppend)
  then show "wfTable m \<Longrightarrow> wfTable (fileSnippet t m)" by (simp add: fileSnippet_def)
qed

lemma wfTable_fold_fileSnippet: "wfTable m \<Longrightarrow> wfTable (fold fileSnippet ts m)"
  by (induction ts arbitrary: m) (simp_all add: wfTable_fileSnippet)

lemma wfTable_Nil: "wfTable []"
  by (simp add: wfTable_def mapKeys_def)

lemma collect_wf:
  "collectSnippetsFromFolder join d snippetDir includeJson = Inr (repoMap, ws) \<Longrightarrow> wfTable repoMap"
  by (auto simp: collectSnippetsFromFolder_def loadFiles_eq wfTable_fold_fileSnippet wfTable_Nil
        split: option.splits fsnode.splits)

lemma wfTable_mergeInto:
  assumes "wfTable repoMap" and "wfTable agg"
  shows "wfTable (mergeInto repoMap agg)"
proof -
  have "list_all (\<lambda>(k, b). b \<noteq> []) rm \<Longrightarrow> wfTable a
          \<Longrightarrow> wfTable (fold (\<lambda>(lang, snips). bucketAppend lang snips) rm a)" for rm a
    by (induction rm arbitrary: a) (auto simp: wfTable_bucketAppend)
  then show ?thesis using assms by (simp add: mergeInto_def wfTable_def)
qed

lemma processRepo_wf:
  assumes "processRepo h allowPull repo (agg, st) = Inr (agg', st')" and "wfTable agg"
  shows "wfTable agg'"
proof (cases "isGitRepo h (world st) repo")
  case False
  then show ?thesis using assms by (simp add: processRepo_not_git)
next
  case True
  obtain err w1 where p: "pullOutcome h allowPull repo (world st) = (err, w1)"
    by (cases "pullOutcome h allowPull repo (world st)")
  show ?thesis
    using assms unfolding processRepo_git[OF True p]
    by (auto simp: wfTable_mergeInto collect_wf split: if_splits sum.splits)
qed

lemma syncLoop_wf:
  "syncLoop h allowPull repos (agg, st) = Inr (agg', st') \<Longrightarrow> wfTable agg \<Longrightarrow> wfTable agg'"
proof (induction repos arbitrary: agg st)
  case Nil
  then show ?case by simp
next
  case (Cons r rs)
  from Cons.prems(1) obtain agg1 st1 where
    step: "processRepo h allowPull r (agg, st) = Inr (agg1, st1)"
    and rest: "syncLoop h allowPull rs (agg1, st1) = Inr (agg', st')"
    by (auto split: sum.splits)
  show ?case
    using Cons.IH[OF rest processRepo_wf[OF step Cons.prems(2)]] .
qed

lemma published_table:
  assumes "syncAllRepos h opts cfg st = Inr st'"
  shows "wfTable (snippetMap st')
       \<and> providerDisposables st' = registerCompletionProviders (snippetMap st')"
proof -
  from assms obtain repos where repos: "getRepoConfigs cfg = Inr repos"
    by (cases "getRepoConfigs cfg") (simp_all add: syncAllRepos_def)
  show ?thesis
  proof (cases "length repos = 0")
    case True
    then show ?thesis
      using assms repos
      by (auto simp: syncAllRepos_def wfTable_Nil registerCompletionProviders_def arrayFromSet_def
            mapKeys_def mapGet_def)
  next
    case False
    then obtain agg st1 where
      loop: "syncLoop h (allowGitPull opts) repos
               ([], st\<lparr>repoStatuses := [], repoWatchers := []\<rparr>) = Inr (agg, st1)"
      and st': "snippetMap st' = agg" "providerDisposables st' = registerCompletionProviders agg"
      using assms repos by (auto simp: syncAllRepos_def split: sum.splits)
    show ?thesis using syncLoop_wf[OF loop wfTable_Nil] st' by simp
  qed
qed

text \<open>
  Claim C6. After a cycle that completes, the providers registered are, in the order of
  the keys of the published table, one provider for each key other than \<^verbatim>\<open>*\<close>, which
  offers the global bucket followed by the bucket of that language, and, when \<^verbatim>\<open>*\<close> is the
  only key, one provider for any file, which offers the global bucket. The trigger
  characters of each provider are, without repetition, the last characters of the
  prefixes of the snippets it offers.
\<close>

theorem published_providers:
  assumes "syncAllRepos h opts cfg st = Inr st'"
  shows "providerDisposables st' =
           map (scopedProvider (snippetMap st'))
             (filter (\<lambda>lang. lang \<noteq> ''*'') (mapKeys (snippetMap st')))
           @ (if mapKeys (snippetMap st') = [''*''] then [catchAllProvider (snippetMap st')] else [])
       \<and> (\<forall>p \<in> set (providerDisposables st').
             distinct (triggerChars p) \<and> set (triggerChars p) = lastChars (offered p))"
proof -
  note pt = published_table[OF assms]
  have eq: "providerDisposables st' =
           map (scopedProvider (snippetMap st'))
             (filter (\<lambda>lang. lang \<noteq> ''*'') (mapKeys (snippetMap st')))
           @ (if mapKeys (snippetMap st') = [''*''] then [catchAllProvider (snippetMap st')] else [])"
    using pt registerCompletionProviders_wf by simp
  have "distinct (triggerChars p) \<and> set (triggerChars p) = lastChars (offered p)"
    if "p \<in> set (providerDisposables st')" for p
    using that unfolding eq
    by (auto simp: scopedProvider_def catchAllProvider_def triggerCharsOf_lastChars split: if_splits)
  with eq show ?thesis by blast
qed

theorem published_providers_witness:
  "\<exists>st'. syncAllRepos exampleHost exampleOptions exampleConfig exampleState = Inr st'
     \<and> providerDisposables st' =
         [\<lparr>selector = Language ''javascript'',
           offered =
             [\<lparr>name = ''Todo'', prefixes = [''todo'', ''fix''], bodyLines = [''// TODO''],
               description_t = Some ''note'', languages = [''*'']\<rparr>,
              \<lparr>name = ''Log'', prefixes = [''logv''], bodyLines = [''console.log(x);''],
               description_t = None, languages = [''javascript'']\<rparr>],
           items =
             [\<lparr>label = ''Todo'', insertText = ''// TODO'', filterText = ''todo'',
               sortText = ''zzz_team_todo'', detail = ''Team Snippet (javascript)'',
               documentation = Some ''note''\<rparr>,
              \<lparr>label = ''Todo'', insertText = ''// TODO'', filterText = ''fix'',
               sortText = ''zzz_team_fix'', detail = ''Team Snippet (javascript)'',
               documentation = Some ''note''\<rparr>,
              \<lparr>label = ''Log'', insertText = ''console.log(x);'', filterText = ''logv'',
               sortText = ''zzz_team_logv'', detail = ''Team Snippet (javascript)'',
               documentation = None\<rparr>],
           triggerChars = [''o'', ''x'', ''v'']\<rparr>]"
proof -
  let ?table = "[(''javascript'',
                [\<lparr>name = ''Log'', prefixes = [''logv''], bodyLines = [''console.log(x);''],
                  description_t = None, languages = [''javascript'']\<rparr>]),
               (''*'',
                [\<lparr>name = ''Todo'', prefixes = [''todo'', ''fix''], bodyLines = [''// TODO''],
                  description_t = Some ''note'', languages = [''*'']\<rparr>])]"
  have "map_sum id snippetMap (syncAllRepos exampleHost exampleOptions exampleConfig exampleState)
          = Inr ?table"
    by code_simp
  then obtain st' where r: "syncAllRepos exampleHost exampleOptions exampleConfig exampleState = Inr st'"
    and m: "snippetMap st' = ?table"
    by (cases "syncAllRepos exampleHost exampleOptions exampleConfig exampleState") auto
  have e: "map (scopedProvider ?table) (filter (\<lambda>lang. lang \<noteq> ''*'') (mapKeys ?table))
           @ (if mapKeys ?table = [''*''] then [catchAllProvider ?table] else [])
         = [\<lparr>selector = Language ''javascript'',
           offered =
             [\<lparr>name = ''Todo'', prefixes = [''todo'', ''fix''], bodyLines = [''// TODO''],
               description_t = Some ''note'', languages = [''*'']\<rparr>,
              \<lparr>name = ''Log'', prefixes = [''logv''], bodyLines = [''console.log(x);''],
               description_t = None, languages = [''javascript'']\<rparr>],
           items =
             [\<lparr>label = ''Todo'', insertText = ''// TODO'', filterText = ''todo'',
               sortText = ''zzz_team_todo'', detail = ''Team Snippet (javascript)'',
               documentation = Some ''note''\<rparr>,
              \<lparr>label = ''Todo'', insertText = ''// TODO'', filterText = ''fix'',
               sortText = ''zzz_team_fix'', detail = ''Team Snippet (javascript)'',
               documentation = Some ''note''\<rparr>,
              \<lparr>label = ''Log'', insertText = ''console.log(x);'', filterText = ''logv'',
               sortText = ''zzz_team_logv'', detail = ''Team Snippet (javascript)'',
               documentation = None\<rparr>],
           triggerChars = [''o'', ''x'', ''v'']\<rparr>]"
    by code_simp
  from published_providers[OF r] have "providerDisposables st' =
      map (scopedProvider ?table) (filter (\<lambda>lang. lang \<noteq> ''*'') (mapKeys ?table))
           @ (if mapKeys ?table = [''*''] then [catchAllProvider ?table] else [])"
    unfolding m by (rule conjunct1)
  with e r show ?thesis by (intro exI[of _ st']) simp
qed

section \<open>The sources beside one that is not a git repository\<close>

lemma world_applyOutcome: "world (snd (applyOutcome h r out (agg, st))) = fst out"
  by (cases out) (simp add: applyOutcome_def)

lemma syncLoop_outcomes:
  "syncLoop h allowPull repos (agg, st) =
     (case runOutcomes h allowPull repos (world st) of
        Inl e \<Rightarrow> Inl e
      | Inr outs \<Rightarrow> Inr (fold (\<lambda>(r, out). applyOutcome h r out) (zip repos outs) (agg, st)))"
proof (induction repos arbitrary: agg st)
  case Nil
  show ?case by simp
next
  case (Cons r rs)
  show ?case
  proof (cases "repoOutcome h allowPull r (world st)")
    case (Inl e)
    then show ?thesis by (simp add: processRepo_outcome)
  next
    case (Inr out)
    obtain agg' st' where a: "applyOutcome h r out (agg, st) = (agg', st')"
      by (cases "applyOutcome h r out (agg, st)")
    have w: "world st' = fst out"
      using world_applyOutcome[of h r out agg st] a by simp
    show ?thesis
      using Inr a w Cons.IH[of agg' st']
      by (simp add: processRepo_outcome split: sum.splits)
  qed
qed

lemma runOutcomes_length:
  "runOutcomes h allowPull repos w = Inr outs \<Longrightarrow> length outs = length repos"
  by (induction repos arbitrary: w outs) (auto split: sum.splits)

lemma repoOutcome_distinct:
  "repoOutcome h allowPull repo w = Inr out \<Longrightarrow> distinct (mapKeys (tableOf out))"
  by (auto simp: repoOutcome_def tableOf_def mapKeys_def Let_def
        dest: collect_wf[unfolded wfTable_def mapKeys_def]
        split: if_splits prod.splits sum.splits)

lemma runOutcomes_distinct:
  "runOutcomes h allowPull repos w = Inr outs \<Longrightarrow> out \<in> set outs \<Longrightarrow> distinct (mapKeys (tableOf out))"
  by (induction repos arbitrary: w outs) (auto split: sum.splits dest: repoOutcome_distinct)

lemma applyOutcome_parts:
  assumes "distinct (mapKeys (tableOf out))"
    and "applyOutcome h r out (agg, st) = (agg', st')"
  shows "bucket k agg' = bucket k agg @ bucket k (tableOf out)"
    and "pulls st' = pulls st @ pullsIn out"
    and "shown st' = shown st @ warningsIn out"
    and "repoStatuses st' = mapSet (repoId r) (statusOf out) (repoStatuses st)"
proof -
  obtain w' ps status loaded where out: "out = (w', ps, status, loaded)" by (cases out)
  show "bucket k agg' = bucket k agg @ bucket k (tableOf out)"
  proof (cases loaded)
    case None
    then show ?thesis
      using assms(2) by (auto simp: out applyOutcome_def tableOf_def bucket_def mapGet_def)
  next
    case (Some l)
    obtain repoMap ws where l: "l = (repoMap, ws)" by (cases l)
    have "distinct (mapKeys repoMap)" using assms(1) by (simp add: out Some l tableOf_def)
    from bucket_mergeInto[OF this, of k agg] show ?thesis
      using assms(2) by (auto simp: out Some l applyOutcome_def tableOf_def)
  qed
  show "pulls st' = pulls st @ pullsIn out"
    using assms(2) by (auto simp: out applyOutcome_def pullsIn_def)
  show "shown st' = shown st @ warningsIn out"
    using assms(2) by (auto simp: out applyOutcome_def warningsIn_def split: option.splits)
  show "repoStatuses st' = mapSet (repoId r) (statusOf out) (repoStatuses st)"
    using assms(2) by (auto simp: out applyOutcome_def statusOf_def)
qed

lemma fold_applyOutcome:
  assumes "\<forall>out \<in> set outs. distinct (mapKeys (tableOf out))"
    and "length outs = length repos"
    and "fold (\<lambda>(r, out). applyOutcome h r out) (zip repos outs) (agg, st) = (aggF, stF)"
  shows "bucket k aggF = bucket k agg @ concat (map (\<lambda>out. bucket k (tableOf out)) outs)"
    and "pulls stF = pulls st @ concat (map pullsIn outs)"
    and "shown stF = shown st @ concat (map warningsIn outs)"
    and "repoStatuses stF =
           fold (\<lambda>(r, out). mapSet (repoId r) (statusOf out)) (zip repos outs) (repoStatuses st)"
  using assms
proof (induction repos arbitrary: outs agg st)
  case Nil
  { case 1 then show ?case by simp }
  { case 2 then show ?case by simp }
  { case 3 then show ?case by simp }
  { case 4 then show ?case by simp }
next
  case (Cons r rs)
  { case 1
    then obtain out outs' where o: "outs = out # outs'" by (cases outs) auto
    obtain agg' st' where a: "applyOutcome h r out (agg, st) = (agg', st')"
      by (cases "applyOutcome h r out (agg, st)")
    have d: "distinct (mapKeys (tableOf out))" using 1(1) o by simp
    have rest: "\<forall>out \<in> set outs'. distinct (mapKeys (tableOf out))" "length outs' = length rs"
      "fold (\<lambda>(r, out). applyOutcome h r out) (zip rs outs') (agg', st') = (aggF, stF)"
      using 1 o a by simp_all
    show ?case
      using Cons.IH(1)[OF rest] applyOutcome_parts(1)[OF d a, of k] by (simp add: o) }
  { case 2
    then obtain out outs' where o: "outs = out # outs'" by (cases outs) auto
    obtain agg' st' where a: "applyOutcome h r out (agg, st) = (agg', st')"
      by (cases "applyOutcome h r out (agg, st)")
    have d: "distinct (mapKeys (tableOf out))" using 2(1) o by simp
    have rest: "\<forall>out \<in> set outs'. distinct (mapKeys (tableOf out))" "length outs' = length rs"
      "fold (\<lambda>(r, out). applyOutcome h r out) (zip rs outs') (agg', st') = (aggF, stF)"
      using 2 o a by simp_all
    show ?case
      using Cons.IH(2)[OF rest] applyOutcome_parts(2)[OF d a] by (simp add: o) }
  { case 3
    then obtain out outs' where o: "outs = out # outs'" by (cases outs) auto
    obtain agg' st' where a: "applyOutcome h r out (agg, st) = (agg', st')"
      by (cases "applyOutcome h r out (agg, st)")
    have d: "distinct (mapKeys (tableOf out))" using 3(1) o by simp
    have rest: "\<forall>out \<in> set outs'. distinct (mapKeys (tableOf out))" "length outs' = length rs"
      "fold (\<lambda>(r, out). applyOutcome h r out) (zip rs outs') (agg', st') = (aggF, stF)"
      using 3 o a by simp_all
    show ?case
      using Cons.IH(3)[OF rest] applyOutcome_parts(3)[OF d a] by (simp add: o) }
  { case 4
    then obtain out outs' where o: "outs = out # outs'" by (cases outs) auto
    obtain agg' st' where a: "applyOutcome h r out (agg, st) = (agg', st')"
      by (cases "applyOutcome h r out (agg, st)")
    have d: "distinct (mapKeys (tableOf out))" using 4(1) o by simp
    have rest: "\<forall>out \<in> set outs'. distinct (mapKeys (tableOf out))" "length outs' = length rs"
      "fold (\<lambda>(r, out). applyOutcome h r out) (zip rs outs') (agg', st') = (aggF, stF)"
      using 4 o a by simp_all
    show ?case
      using Cons.IH(4)[OF rest] applyOutcome_parts(4)[OF d a] by (simp add: o) }
qed

lemma mapGet_fold_other:
  "k \<notin> repoId ` set repos \<Longrightarrow>
   mapGet k (fold (\<lambda>(r, out). mapSet (repoId r) (statusOf out)) (zip repos outs) m) = mapGet k m"
proof (induction repos arbitrary: outs m)
  case Nil
  show ?case by simp
next
  case (Cons r rs)
  show ?case
    using Cons.prems Cons.IH[of _ "mapSet (repoId r) (statusOf (hd outs)) m"]
    by (cases outs) (auto simp: mapGet_mapSet)
qed

lemma mapGet_fold_statuses:
  "distinct (map repoId repos) \<Longrightarrow> length outs = length repos \<Longrightarrow>
   list_all2 (\<lambda>r out. mapGet (repoId r)
                (fold (\<lambda>(r, out). mapSet (repoId r) (statusOf out)) (zip repos outs) m)
              = Some (statusOf out)) repos outs"
proof (induction repos arbitrary: outs m)
  case Nil
  then show ?case by simp
next
  case (Cons r rs)
  then obtain out outs' where o: "outs = out # outs'" by (cases outs) auto
  have fresh: "repoId r \<notin> repoId ` set rs" and d: "distinct (map repoId rs)"
    and l: "length outs' = length rs"
    using Cons.prems o by auto
  show ?case
    using Cons.IH[OF d l, of "mapSet (repoId r) (statusOf out) m"]
      mapGet_fold_other[OF fresh, of outs' "mapSet (repoId r) (statusOf out) m"]
    by (simp add: o mapGet_mapSet)
qed

text \<open>
  Claim C3. When the loop reaches a source whose root does not exist or has no \<^verbatim>\<open>.git\<close>,
  the pass for that source raises nothing and changes nothing but the statuses: no pull
  is run, and the status recorded for the source has \<open>lastError\<close> set and \<open>snippetCount\<close>
  zero. Apart from that one status, the cycle over all sources ends as the cycle over
  the other sources alone does. The sources after it are processed one by one in the
  world as it then is: if one of them raises, the cycle raises the same; otherwise the
  cycle returns, every bucket of its table is the bucket before followed by what each of
  these sources loads, their pulls and loader warnings are added in order, and (the ids
  being distinct) the statuses hold the error of the source that is not a git repository
  and, for each of the others, the status of its own pass.
\<close>

theorem not_a_git_repo_is_skipped:
  assumes "syncLoop h allowPull before acc = Inr (agg, st)"
    and "\<not> isGitRepo h (world st) repo"
  shows "processRepo h allowPull repo (agg, st) =
           Inr (agg, st\<lparr>repoStatuses :=
                       mapSet (repoId repo)
                         \<lparr>statusId = repoId repo, statusName = repoName repo, lastSync = None,
                           lastError = Some (''Not a git repo: '' @ repoPathOf h repo),
                           snippetCount = 0\<rparr>
                         (repoStatuses st)\<rparr>)
       \<and> map_sum id (map_prod id (withoutStatus (repoId repo)))
             (syncLoop h allowPull (before @ repo # after) acc)
         = map_sum id (map_prod id (withoutStatus (repoId repo)))
             (syncLoop h allowPull (before @ after) acc)
       \<and> (case runOutcomes h allowPull after (world st) of
             Inl e \<Rightarrow> syncLoop h allowPull (before @ repo # after) acc = Inl e
           | Inr outs \<Rightarrow>
               (\<exists>aggF stF.
                  syncLoop h allowPull (before @ repo # after) acc = Inr (aggF, stF)
                \<and> length outs = length after
                \<and> (\<forall>k. bucket k aggF
                         = bucket k agg @ concat (map (\<lambda>out. bucket k (tableOf out)) outs))
                \<and> pulls stF = pulls st @ concat (map pullsIn outs)
                \<and> shown stF = shown st @ concat (map warningsIn outs)
                \<and> (distinct (map repoId (repo # after)) \<longrightarrow>
                     mapGet (repoId repo) (repoStatuses stF) =
                       Some \<lparr>statusId = repoId repo, statusName = repoName repo,
                              lastSync = None,
                              lastError = Some (''Not a git repo: '' @ repoPathOf h repo),
                              snippetCount = 0\<rparr>
                   \<and> list_all2 (\<lambda>r out. mapGet (repoId r) (repoStatuses stF) = Some (statusOf out))
                       after outs)))"
proof -
  let ?err = "\<lparr>statusId = repoId repo, statusName = repoName repo, lastSync = None,
                lastError = Some (''Not a git repo: '' @ repoPathOf h repo),
                snippetCount = 0\<rparr>"
  let ?st' = "st\<lparr>repoStatuses := mapSet (repoId repo) ?err (repoStatuses st)\<rparr>"
  have step: "processRepo h allowPull repo (agg, st) = Inr (agg, ?st')"
    using assms(2) by (rule processRepo_not_git)
  have loop: "syncLoop h allowPull (before @ repo # after) acc = syncLoop h allowPull after (agg, ?st')"
    by (simp add: syncLoop_append assms(1) step)
  have "withoutStatus (repoId repo) ?st' = withoutStatus (repoId repo) st"
    by (intro withoutStatus_eqI) (simp_all add: filter_mapSet)
  then have "map_sum id (map_prod id (withoutStatus (repoId repo))) (syncLoop h allowPull after (agg, ?st'))
           = map_sum id (map_prod id (withoutStatus (repoId repo))) (syncLoop h allowPull after (agg, st))"
    by (rule syncLoop_frame)
  then have frame: "map_sum id (map_prod id (withoutStatus (repoId repo)))
             (syncLoop h allowPull (before @ repo # after) acc)
         = map_sum id (map_prod id (withoutStatus (repoId repo)))
             (syncLoop h allowPull (before @ after) acc)"
    by (simp add: syncLoop_append assms(1) step)
  have outcomes: "syncLoop h allowPull after (agg, ?st') =
     (case runOutcomes h allowPull after (world st) of
        Inl e \<Rightarrow> Inl e
      | Inr outs \<Rightarrow> Inr (fold (\<lambda>(r, out). applyOutcome h r out) (zip after outs) (agg, ?st')))"
    using syncLoop_outcomes[of h allowPull after agg ?st'] by simp
  have siblings: "case runOutcomes h allowPull after (world st) of
             Inl e \<Rightarrow> syncLoop h allowPull (before @ repo # after) acc = Inl e
           | Inr outs \<Rightarrow>
               (\<exists>aggF stF.
                  syncLoop h allowPull (before @ repo # after) acc = Inr (aggF, stF)
                \<and> length outs = length after
                \<and> (\<forall>k. bucket k aggF
                         = bucket k agg @ concat (map (\<lambda>out. bucket k (tableOf out)) outs))
                \<and> pulls stF = pulls st @ concat (map pullsIn outs)
                \<and> shown stF = shown st @ concat (map warningsIn outs)
                \<and> (distinct (map repoId (repo # after)) \<longrightarrow>
                     mapGet (repoId repo) (repoStatuses stF) = Some ?err
                   \<and> list_all2 (\<lambda>r out. mapGet (repoId r) (repoStatuses stF) = Some (statusOf out))
                       after outs))"
  proof (cases "runOutcomes h allowPull after (world st)")
    case (Inl e)
    then show ?thesis using loop outcomes by simp
  next
    case (Inr outs)
    obtain aggF stF where
      f: "fold (\<lambda>(r, out). applyOutcome h r out) (zip after outs) (agg, ?st') = (aggF, stF)"
      by (cases "fold (\<lambda>(r, out). applyOutcome h r out) (zip after outs) (agg, ?st')")
    have run: "syncLoop h allowPull (before @ repo # after) acc = Inr (aggF, stF)"
      using loop outcomes Inr f by simp
    note len = runOutcomes_length[OF Inr]
    have dist: "\<forall>out \<in> set outs. distinct (mapKeys (tableOf out))"
      using runOutcomes_distinct[OF Inr] by blast
    have b: "bucket k aggF = bucket k agg @ concat (map (\<lambda>out. bucket k (tableOf out)) outs)" for k
      using fold_applyOutcome(1)[OF dist len f] .
    have p: "pulls stF = pulls st @ concat (map pullsIn outs)"
      using fold_applyOutcome(2)[OF dist len f] by simp
    have s: "shown stF = shown st @ concat (map warningsIn outs)"
      using fold_applyOutcome(3)[OF dist len f] by simp
    have r: "repoStatuses stF =
           fold (\<lambda>(r, out). mapSet (repoId r) (statusOf out)) (zip after outs)
             (mapSet (repoId repo) ?err (repoStatuses st))"
      using fold_applyOutcome(4)[OF dist len f] by simp
    have statuses: "mapGet (repoId repo) (repoStatuses stF) = Some ?err
        \<and> list_all2 (\<lambda>r out. mapGet (repoId r) (repoStatuses stF) = Some (statusOf out)) after outs"
      if d: "distinct (map repoId (repo # after))"
    proof
      have fresh: "repoId repo \<notin> repoId ` set after" using d by auto
      show "mapGet (repoId repo) (repoStatuses stF) = Some ?err"
        unfolding r mapGet_fold_other[OF fresh] by (simp add: mapGet_mapSet)
      have d': "distinct (map repoId after)" using d by simp
      show "list_all2 (\<lambda>r out. mapGet (repoId r) (repoStatuses stF) = Some (statusOf out)) after outs"
        unfolding r by (rule mapGet_fold_statuses[OF d' len])
    qed
    have "\<exists>aggF stF.
                  syncLoop h allowPull (before @ repo # after) acc = Inr (aggF, stF)
                \<and> length outs = length after
                \<and> (\<forall>k. bucket k aggF
                         = bucket k agg @ concat (map (\<lambda>out. bucket k (tableOf out)) outs))
                \<and> pulls stF = pulls st @ concat (map pullsIn outs)
                \<and> shown stF = shown st @ concat (map warningsIn outs)
                \<and> (distinct (map repoId (repo # after)) \<longrightarrow>
                     mapGet (repoId repo) (repoStatuses stF) = Some ?err
                   \<and> list_all2 (\<lambda>r out. mapGet (repoId r) (repoStatuses stF) = Some (statusOf out))
                       after outs)"
      using run len b p s statuses by blast
    then show ?thesis unfolding Inr by simp
  qed
  from step frame siblings show ?thesis by (intro conjI)
qed

theorem not_a_git_repo_is_skipped_witness:
  "processRepo exampleHost True exampleRepoB ([], exampleState) =
     Inr ([], exampleState\<lparr>repoStatuses :=
            [(''repo-1'',
              \<lparr>statusId = ''repo-1'', statusName = ''Repo 2 (/b)'', lastSync = None,
                lastError = Some ''Not a git repo: /b'', snippetCount = 0\<rparr>)]\<rparr>)
   \<and> (\<exists>aggF stF.
        syncLoop exampleHost True ([] @ exampleRepoB # [exampleRepo]) ([], exampleState)
          = Inr (aggF, stF)
      \<and> bucket ''javascript'' aggF =
          [\<lparr>name = ''Log'', prefixes = [''logv''], bodyLines = [''console.log(x);''],
            description_t = None, languages = [''javascript'']\<rparr>]
      \<and> bucket ''*'' aggF =
          [\<lparr>name = ''Todo'', prefixes = [''todo'', ''fix''], bodyLines = [''// TODO''],
            description_t = Some ''note'', languages = [''*'']\<rparr>]
      \<and> pulls stF = [(''/a'', ''main'')]
      \<and> shown stF =
          [FailedToLoad ''/a/snippets/broken.json'' SyntaxError,
           FailedToLoad ''/a/snippets/more/todo.code-snippets'' TypeError]
      \<and> mapGet ''repo-1'' (repoStatuses stF) =
          Some \<lparr>statusId = ''repo-1'', statusName = ''Repo 2 (/b)'', lastSync = None,
                 lastError = Some ''Not a git repo: /b'', snippetCount = 0\<rparr>
      \<and> mapGet ''repo-0'' (repoStatuses stF) =
          Some \<lparr>statusId = ''repo-0'', statusName = ''Core'', lastSync = Some 7,
                 lastError = None, snippetCount = 2\<rparr>)"
proof -
  let ?table = "[(''javascript'',
                [\<lparr>name = ''Log'', prefixes = [''logv''], bodyLines = [''console.log(x);''],
                  description_t = None, languages = [''javascript'']\<rparr>]),
               (''*'',
                [\<lparr>name = ''Todo'', prefixes = [''todo'', ''fix''], bodyLines = [''// TODO''],
                  description_t = Some ''note'', languages = [''*'']\<rparr>])]"
  let ?warnings = "[FailedToLoad ''/a/snippets/broken.json'' SyntaxError,
           FailedToLoad ''/a/snippets/more/todo.code-snippets'' TypeError]"
  let ?status = "\<lparr>statusId = ''repo-0'', statusName = ''Core'', lastSync = Some 7,
                 lastError = None, snippetCount = 2\<rparr>"
  have b: "syncLoop exampleHost True [] ([], exampleState) = Inr ([], exampleState)" by simp
  have nb: "\<not> isGitRepo exampleHost (world exampleState) exampleRepoB"
    by (simp add: isGitRepo_def existsSync_def repoPathOf_def resolveRepoPath_def exampleHost_def
          exampleState_def exampleWorld_def exampleDisk_def exampleRepoB_def)
  have g: "isGitRepo exampleHost (world exampleState) exampleRepo"
    by (simp add: isGitRepo_def existsSync_def repoPathOf_def resolveRepoPath_def exampleHost_def
          exampleState_def exampleWorld_def exampleDisk_def exampleRepo_def)
  have p: "pullOutcome exampleHost True exampleRepo (world exampleState) = (None, world exampleState)"
    by (simp add: pullOutcome_def runGitPull_def exampleHost_def exampleRepo_def)
  have e: "existsSync (world exampleState) (snippetDirOf exampleHost exampleRepo)"
    by (simp add: existsSync_def snippetDirOf_def repoPathOf_def resolveRepoPath_def exampleHost_def
          exampleState_def exampleWorld_def exampleDisk_def exampleRepo_def)
  have c: "collectSnippetsFromFolder (pathJoin exampleHost) (disk (world exampleState))
             (snippetDirOf exampleHost exampleRepo) (includeJsonFiles exampleRepo)
           = Inr (?table, ?warnings)"
    by code_simp
  have n: "countTotalSnippets ?table = 2" by code_simp
  have ps: "pullsOf exampleHost True exampleRepo = [(''/a'', ''main'')]"
    by (simp add: pullsOf_def repoPathOf_def resolveRepoPath_def exampleHost_def exampleRepo_def)
  have out: "repoOutcome exampleHost True exampleRepo (world exampleState)
               = Inr (world exampleState, [(''/a'', ''main'')], ?status, Some (?table, ?warnings))"
    unfolding repoOutcome_def
    by (simp add: g p e c n ps) (simp add: exampleRepo_def exampleState_def exampleWorld_def)
  have outs: "runOutcomes exampleHost True [exampleRepo] (world exampleState)
               = Inr [(world exampleState, [(''/a'', ''main'')], ?status, Some (?table, ?warnings))]"
    by (simp add: out)
  have ids: "repoId exampleRepoB = ''repo-1''" "repoName exampleRepoB = ''Repo 2 (/b)''"
    "repoPathOf exampleHost exampleRepoB = ''/b''" "repoId exampleRepo = ''repo-0''"
    by (simp_all add: exampleRepoB_def exampleRepo_def repoPathOf_def resolveRepoPath_def
          exampleHost_def)
  have st: "repoStatuses exampleState = []" "pulls exampleState = []" "shown exampleState = []"
    by (simp_all add: exampleState_def)
  have bk: "bucket ''javascript'' ?table =
          [\<lparr>name = ''Log'', prefixes = [''logv''], bodyLines = [''console.log(x);''],
            description_t = None, languages = [''javascript'']\<rparr>]"
    "bucket ''*'' ?table =
          [\<lparr>name = ''Todo'', prefixes = [''todo'', ''fix''], bodyLines = [''// TODO''],
            description_t = Some ''note'', languages = [''*'']\<rparr>]"
    "bucket k ([] :: snippet_table) = []" for k
    by (simp_all add: bucket_def mapGet_def)
  note inst = not_a_git_repo_is_skipped[OF b nb, of "[exampleRepo]"]
  from inst have first: "processRepo exampleHost True exampleRepoB ([], exampleState) =
     Inr ([], exampleState\<lparr>repoStatuses :=
            [(''repo-1'',
              \<lparr>statusId = ''repo-1'', statusName = ''Repo 2 (/b)'', lastSync = None,
                lastError = Some ''Not a git repo: /b'', snippetCount = 0\<rparr>)]\<rparr>)"
    by (simp add: ids st)
  from inst obtain aggF stF where
    r: "syncLoop exampleHost True ([] @ exampleRepoB # [exampleRepo]) ([], exampleState)
          = Inr (aggF, stF)"
    and f: "\<forall>k. bucket k aggF = bucket k [] @ bucket k ?table @ []"
      "pulls stF = [(''/a'', ''main'')]"
      "shown stF = ?warnings"
      "mapGet ''repo-1'' (repoStatuses stF) =
          Some \<lparr>statusId = ''repo-1'', statusName = ''Repo 2 (/b)'', lastSync = None,
                 lastError = Some ''Not a git repo: /b'', snippetCount = 0\<rparr>"
      "mapGet ''repo-0'' (repoStatuses stF) = Some ?status"
    unfolding outs
    by (auto simp: ids st tableOf_def pullsIn_def warningsIn_def statusOf_def)
  have "bucket ''javascript'' aggF = bucket ''javascript'' ?table"
    "bucket ''*'' aggF = bucket ''*'' ?table"
    using f(1) by (simp_all only: bk append_Nil append_Nil2)
  with first r f(2-5) bk(1,2) show ?thesis by (intro conjI exI[of _ aggF] exI[of _ stF]) simp_all
qed

end
